theory Spec2Isabelle
  imports
    Main
    "HOL-Library.Sublist"
    "HOL-Library.Char_ord"
    "HOL-Library.List_Lexorder"
    "HOL-Library.Multiset"
begin

section \<open>Strings of the Go runtime\<close>

text \<open>
  A Go string is a sequence of bytes; it is modelled by \<^typ>\<open>string\<close>, whose
  characters are bytes. Comparison of Go strings with \<open><\<close> is lexicographic on the
  bytes, which is the order of \<open>HOL-Library.List_Lexorder\<close> over
  \<open>HOL-Library.Char_ord\<close>.

  \<open>strings.TrimSpace\<close> and \<open>strings.Fields\<close> remove or split at white space
  "as defined by Unicode": the code points for which \<open>unicode.IsSpace\<close> holds,
  U+0009..U+000D, U+0020, U+0085, U+00A0, U+1680, U+2000..U+200A, U+2028, U+2029,
  U+202F, U+205F and U+3000. A byte that does not start a valid UTF-8 encoding
  decodes to U+FFFD, which is not a space. So the rune at the head (or at the end)
  of a string is a space exactly when the string starts (or ends) with the UTF-8
  encoding of one of these code points.
\<close>

definition spaceEncodings :: "string list" where
  "spaceEncodings =
     [[CHR 0x09], [CHR 0x0A], [CHR 0x0B], [CHR 0x0C], [CHR 0x0D], [CHR 0x20],
      [CHR 0xC2, CHR 0x85], [CHR 0xC2, CHR 0xA0], [CHR 0xE1, CHR 0x9A, CHR 0x80],
      [CHR 0xE2, CHR 0x80, CHR 0x80], [CHR 0xE2, CHR 0x80, CHR 0x81],
      [CHR 0xE2, CHR 0x80, CHR 0x82], [CHR 0xE2, CHR 0x80, CHR 0x83],
      [CHR 0xE2, CHR 0x80, CHR 0x84], [CHR 0xE2, CHR 0x80, CHR 0x85],
      [CHR 0xE2, CHR 0x80, CHR 0x86], [CHR 0xE2, CHR 0x80, CHR 0x87],
      [CHR 0xE2, CHR 0x80, CHR 0x88], [CHR 0xE2, CHR 0x80, CHR 0x89],
      [CHR 0xE2, CHR 0x80, CHR 0x8A], [CHR 0xE2, CHR 0x80, CHR 0xA8],
      [CHR 0xE2, CHR 0x80, CHR 0xA9], [CHR 0xE2, CHR 0x80, CHR 0xAF],
      [CHR 0xE2, CHR 0x81, CHR 0x9F], [CHR 0xE3, CHR 0x80, CHR 0x80]]"

text \<open>
  \<open>spaceWidth s\<close> is the number of bytes of the white-space rune at the head of
  \<open>s\<close>, and 0 when the rune at the head is not a space (or \<open>s\<close> is empty);
  \<open>spaceWidthBack s\<close> is the same for the rune at the end of \<open>s\<close>.
\<close>

definition spaceWidth :: "string \<Rightarrow> nat" where
  "spaceWidth s =
     (case find (\<lambda>e. prefix e s) spaceEncodings of None \<Rightarrow> 0 | Some e \<Rightarrow> length e)"

definition spaceWidthBack :: "string \<Rightarrow> nat" where
  "spaceWidthBack s =
     (case find (\<lambda>e. suffix e s) spaceEncodings of None \<Rightarrow> 0 | Some e \<Rightarrow> length e)"

lemma spaceWidth_cases:
  obtains (none) "spaceWidth s = 0" "\<forall>e\<in>set spaceEncodings. \<not> prefix e s"
  | (some) e where "e \<in> set spaceEncodings" "prefix e s" "spaceWidth s = length e"
proof (cases "find (\<lambda>e. prefix e s) spaceEncodings")
  case None
  have "spaceWidth s = 0"
    using None by (simp add: spaceWidth_def)
  moreover have "\<forall>e\<in>set spaceEncodings. \<not> prefix e s"
    using None by (simp add: find_None_iff)
  ultimately show ?thesis
    by (rule none)
next
  case (Some e)
  have "e \<in> set spaceEncodings" "prefix e s"
    using Some by (auto simp: find_Some_iff)
  moreover have "spaceWidth s = length e"
    using Some by (simp add: spaceWidth_def)
  ultimately show ?thesis
    by (rule some)
qed

lemma spaceWidthBack_cases:
  obtains (none) "spaceWidthBack s = 0" "\<forall>e\<in>set spaceEncodings. \<not> suffix e s"
  | (some) e where "e \<in> set spaceEncodings" "suffix e s" "spaceWidthBack s = length e"
proof (cases "find (\<lambda>e. suffix e s) spaceEncodings")
  case None
  have "spaceWidthBack s = 0"
    using None by (simp add: spaceWidthBack_def)
  moreover have "\<forall>e\<in>set spaceEncodings. \<not> suffix e s"
    using None by (simp add: find_None_iff)
  ultimately show ?thesis
    by (rule none)
next
  case (Some e)
  have "e \<in> set spaceEncodings" "suffix e s"
    using Some by (auto simp: find_Some_iff)
  moreover have "spaceWidthBack s = length e"
    using Some by (simp add: spaceWidthBack_def)
  ultimately show ?thesis
    by (rule some)
qed

lemma spaceWidth_le: "spaceWidth s \<le> length s"
  by (cases s rule: spaceWidth_cases) (auto dest: prefix_length_le)

lemma spaceWidthBack_le: "spaceWidthBack s \<le> length s"
  by (cases s rule: spaceWidthBack_cases) (auto dest: suffix_length_le)

lemma spaceWidth_decreases: "0 < spaceWidth s \<Longrightarrow> length s - spaceWidth s < length s"
  using spaceWidth_le [of s] by (cases s) auto

lemma spaceWidthBack_decreases: "0 < spaceWidthBack s \<Longrightarrow> length s - spaceWidthBack s < length s"
  using spaceWidthBack_le [of s] by (cases s) auto

text \<open>\<open>strings.TrimLeftFunc(s, unicode.IsSpace)\<close>: drop white-space runes from the head.\<close>

function trimLeft :: "string \<Rightarrow> string" where
  "trimLeft s =
     (if spaceWidth s = 0 then s else trimLeft (drop (spaceWidth s) s))"
  by pat_completeness auto
termination
  by (relation "measure length") (auto simp: spaceWidth_decreases)

text \<open>\<open>strings.TrimRightFunc(s, unicode.IsSpace)\<close>: drop white-space runes from the end.\<close>

function trimRight :: "string \<Rightarrow> string" where
  "trimRight s =
     (if spaceWidthBack s = 0 then s
      else trimRight (take (length s - spaceWidthBack s) s))"
  by pat_completeness auto
termination
  by (relation "measure length") (auto simp: spaceWidthBack_decreases)

declare trimLeft.simps [simp del] trimRight.simps [simp del]

definition TrimSpace :: "string \<Rightarrow> string" where
  "TrimSpace s = trimRight (trimLeft s)"

text \<open>\<open>strings.HasPrefix(s, prefix)\<close>.\<close>

definition HasPrefix :: "string \<Rightarrow> string \<Rightarrow> bool" where
  "HasPrefix s p = prefix p s"

text \<open>
  \<open>strings.Fields(s)\<close>: the maximal runs of bytes between white-space runes.
  \<open>fieldsFrom cur s\<close> scans \<open>s\<close> with the field \<open>cur\<close> open. A rune that is
  not a space is passed over byte by byte: its continuation bytes (0x80..0xBF) start
  no white-space encoding, so the bytes of a field are the same as when the rune is
  passed over as a whole.
\<close>

function fieldsFrom :: "string \<Rightarrow> string \<Rightarrow> string list" where
  "fieldsFrom cur s =
     (if s = [] then (if cur = [] then [] else [cur])
      else if spaceWidth s = 0 then fieldsFrom (cur @ [hd s]) (tl s)
      else (if cur = [] then [] else [cur]) @ fieldsFrom [] (drop (spaceWidth s) s))"
  by pat_completeness auto
termination
  by (relation "measure (\<lambda>(cur, s). length s)") (auto simp: spaceWidth_decreases)

declare fieldsFrom.simps [simp del]

definition Fields :: "string \<Rightarrow> string list" where
  "Fields s = fieldsFrom [] s"

text \<open>\<open>strings.Join(elems, sep)\<close>.\<close>

fun Join_strings :: "string list \<Rightarrow> string \<Rightarrow> string" where
  "Join_strings [] sep = []"
| "Join_strings [x] sep = x"
| "Join_strings (x # y # ys) sep = x @ sep @ Join_strings (y # ys) sep"

text \<open>
  The words of the specification: an entry is empty or whitespace-only when it is a
  (possibly empty) sequence of white-space runes.
\<close>

inductive whitespaceOnly :: "string \<Rightarrow> bool" where
  wsNil: "whitespaceOnly []"
| wsCons: "e \<in> set spaceEncodings \<Longrightarrow> whitespaceOnly s \<Longrightarrow> whitespaceOnly (e @ s)"

section \<open>Migrations and the statement builder\<close>

text \<open>
  \<open>baseMigration\<close> is the struct behind the \<open>Migration\<close> interface. The engine
  reads a migration only through the four accessors \<open>ID()\<close>, \<open>Description()\<close>,
  \<open>Up()\<close> and \<open>Down()\<close>, so a \<open>Migration\<close> is the record of these four values.
\<close>

record baseMigration =
  id' :: string
  description :: string
  upQueries :: "string list"
  downQueries :: "string list"

type_synonym Migration = baseMigration

abbreviation Migration_ID :: "Migration \<Rightarrow> string" where
  "Migration_ID m \<equiv> id' m"

abbreviation Migration_Description :: "Migration \<Rightarrow> string" where
  "Migration_Description m \<equiv> description m"

abbreviation Migration_Up :: "Migration \<Rightarrow> string list" where
  "Migration_Up m \<equiv> upQueries m"

abbreviation Migration_Down :: "Migration \<Rightarrow> string list" where
  "Migration_Down m \<equiv> downQueries m"

definition AddUp :: "string \<Rightarrow> baseMigration \<Rightarrow> baseMigration" where
  "AddUp query m = m\<lparr>upQueries := upQueries m @ [query]\<rparr>"

definition AddDown :: "string \<Rightarrow> baseMigration \<Rightarrow> baseMigration" where
  "AddDown query m = m\<lparr>downQueries := [query] @ downQueries m\<rparr>"

record MigrationBuilder =
  migration :: baseMigration

definition CreateMigration :: "string \<Rightarrow> string \<Rightarrow> MigrationBuilder" where
  "CreateMigration ident desc =
     \<lparr>migration = \<lparr>id' = ident, description = desc, upQueries = [], downQueries = []\<rparr>\<rparr>"

text \<open>
  Every builder method mutates the migration behind the builder and returns the
  builder; the model returns the updated builder. \<open>fmt.Sprintf\<close> with \<open>%s\<close>
  verbs is concatenation.
\<close>

definition CreateTable :: "string \<Rightarrow> string list \<Rightarrow> MigrationBuilder \<Rightarrow> MigrationBuilder" where
  "CreateTable tableName columns b =
     (let query = ''CREATE TABLE IF NOT EXISTS '' @ tableName @ '' (\<newline>    ''
                  @ Join_strings columns '',\<newline>    '' @ ''\<newline>);'';
          m1 = AddUp query (migration b);
          m2 = AddDown (''DROP TABLE IF EXISTS '' @ tableName @ '';'') m1
      in b\<lparr>migration := m2\<rparr>)"

definition DropTable :: "string \<Rightarrow> MigrationBuilder \<Rightarrow> MigrationBuilder" where
  "DropTable tableName b =
     (let m1 = AddUp (''DROP TABLE IF EXISTS '' @ tableName @ '';'') (migration b);
          m2 = AddDown (''-- Cannot restore dropped table '' @ tableName) m1
      in b\<lparr>migration := m2\<rparr>)"

text \<open>
  \<open>AddColumn\<close> indexes \<open>strings.Fields(columnDef)[0]\<close>: on an empty slice the Go
  runtime panics with an index-out-of-range error. The forward statement has been
  appended by then; the panic carries the builder as the panic leaves it.
\<close>

datatype panic = IndexOutOfRange nat nat

definition AddColumn ::
  "string \<Rightarrow> string \<Rightarrow> MigrationBuilder \<Rightarrow> (panic \<times> MigrationBuilder) + MigrationBuilder" where
  "AddColumn tableName columnDef b =
     (let m1 = AddUp (''ALTER TABLE '' @ tableName @ '' ADD COLUMN '' @ columnDef @ '';'')
                 (migration b)
      in case Fields columnDef of
           [] \<Rightarrow> Inl (IndexOutOfRange 0 0, b\<lparr>migration := m1\<rparr>)
         | columnName # _ \<Rightarrow>
             Inr (b\<lparr>migration :=
                    AddDown (''ALTER TABLE '' @ tableName @ '' DROP COLUMN '' @ columnName @ '';'')
                      m1\<rparr>))"

definition DropColumn :: "string \<Rightarrow> string \<Rightarrow> MigrationBuilder \<Rightarrow> MigrationBuilder" where
  "DropColumn tableName columnName b =
     (let m1 = AddUp (''ALTER TABLE '' @ tableName @ '' DROP COLUMN '' @ columnName @ '';'')
                 (migration b);
          m2 = AddDown (''-- Cannot restore dropped column '' @ tableName @ ''.'' @ columnName
                        @ '' without definition'') m1
      in b\<lparr>migration := m2\<rparr>)"

definition RenameColumn ::
  "string \<Rightarrow> string \<Rightarrow> string \<Rightarrow> MigrationBuilder \<Rightarrow> MigrationBuilder" where
  "RenameColumn tableName oldName newName b =
     (let m1 = AddUp (''ALTER TABLE '' @ tableName @ '' RENAME COLUMN '' @ oldName @ '' TO ''
                      @ newName @ '';'') (migration b);
          m2 = AddDown (''ALTER TABLE '' @ tableName @ '' RENAME COLUMN '' @ newName @ '' TO ''
                        @ oldName @ '';'') m1
      in b\<lparr>migration := m2\<rparr>)"

definition ChangeColumn ::
  "string \<Rightarrow> string \<Rightarrow> string \<Rightarrow> MigrationBuilder \<Rightarrow> MigrationBuilder" where
  "ChangeColumn tableName columnName newDefinition b =
     (let m1 = AddUp (''ALTER TABLE '' @ tableName @ '' ALTER COLUMN '' @ columnName @ '' ''
                      @ newDefinition @ '';'') (migration b);
          m2 = AddDown (''-- Cannot reverse column change for '' @ tableName @ ''.''
                        @ columnName) m1
      in b\<lparr>migration := m2\<rparr>)"

definition CreateIndex ::
  "string \<Rightarrow> string \<Rightarrow> string list \<Rightarrow> MigrationBuilder \<Rightarrow> MigrationBuilder" where
  "CreateIndex indexName tableName columns b =
     (let query = ''CREATE INDEX '' @ indexName @ '' ON '' @ tableName @ '' (''
                  @ Join_strings columns '', '' @ '');'';
          m1 = AddUp query (migration b);
          m2 = AddDown (''DROP INDEX IF EXISTS '' @ indexName @ '';'') m1
      in b\<lparr>migration := m2\<rparr>)"

definition CreateUniqueIndex ::
  "string \<Rightarrow> string \<Rightarrow> string list \<Rightarrow> MigrationBuilder \<Rightarrow> MigrationBuilder" where
  "CreateUniqueIndex indexName tableName columns b =
     (let query = ''CREATE UNIQUE INDEX '' @ indexName @ '' ON '' @ tableName @ '' (''
                  @ Join_strings columns '', '' @ '');'';
          m1 = AddUp query (migration b);
          m2 = AddDown (''DROP INDEX IF EXISTS '' @ indexName @ '';'') m1
      in b\<lparr>migration := m2\<rparr>)"

definition DropIndex :: "string \<Rightarrow> MigrationBuilder \<Rightarrow> MigrationBuilder" where
  "DropIndex indexName b =
     (let m1 = AddUp (''DROP INDEX IF EXISTS '' @ indexName @ '';'') (migration b);
          m2 = AddDown (''-- Cannot restore dropped index '' @ indexName
                        @ '' without definition'') m1
      in b\<lparr>migration := m2\<rparr>)"

definition AddForeignKey ::
  "string \<Rightarrow> string \<Rightarrow> string \<Rightarrow> string \<Rightarrow> MigrationBuilder \<Rightarrow> MigrationBuilder" where
  "AddForeignKey tableName columnName refTable refColumn b =
     (let constraintName = ''fk_'' @ tableName @ ''_'' @ columnName;
          query = ''ALTER TABLE '' @ tableName @ '' ADD CONSTRAINT '' @ constraintName
                  @ '' FOREIGN KEY ('' @ columnName @ '') REFERENCES '' @ refTable @ ''(''
                  @ refColumn @ '');'';
          m1 = AddUp query (migration b);
          m2 = AddDown (''ALTER TABLE '' @ tableName @ '' DROP CONSTRAINT IF EXISTS ''
                        @ constraintName @ '';'') m1
      in b\<lparr>migration := m2\<rparr>)"

definition AddForeignKeyWithName ::
  "string \<Rightarrow> string \<Rightarrow> string \<Rightarrow> string \<Rightarrow> string \<Rightarrow> MigrationBuilder \<Rightarrow> MigrationBuilder" where
  "AddForeignKeyWithName tableName constraintName columnName refTable refColumn b =
     (let query = ''ALTER TABLE '' @ tableName @ '' ADD CONSTRAINT '' @ constraintName
                  @ '' FOREIGN KEY ('' @ columnName @ '') REFERENCES '' @ refTable @ ''(''
                  @ refColumn @ '');'';
          m1 = AddUp query (migration b);
          m2 = AddDown (''ALTER TABLE '' @ tableName @ '' DROP CONSTRAINT IF EXISTS ''
                        @ constraintName @ '';'') m1
      in b\<lparr>migration := m2\<rparr>)"

definition DropForeignKey :: "string \<Rightarrow> string \<Rightarrow> MigrationBuilder \<Rightarrow> MigrationBuilder" where
  "DropForeignKey tableName constraintName b =
     (let m1 = AddUp (''ALTER TABLE '' @ tableName @ '' DROP CONSTRAINT IF EXISTS ''
                      @ constraintName @ '';'') (migration b);
          m2 = AddDown (''-- Cannot restore dropped foreign key '' @ constraintName) m1
      in b\<lparr>migration := m2\<rparr>)"

definition AddPrimaryKey ::
  "string \<Rightarrow> string \<Rightarrow> string list \<Rightarrow> MigrationBuilder \<Rightarrow> MigrationBuilder" where
  "AddPrimaryKey tableName constraintName columns b =
     (let query = ''ALTER TABLE '' @ tableName @ '' ADD CONSTRAINT '' @ constraintName
                  @ '' PRIMARY KEY ('' @ Join_strings columns '', '' @ '');'';
          m1 = AddUp query (migration b);
          m2 = AddDown (''ALTER TABLE '' @ tableName @ '' DROP CONSTRAINT IF EXISTS ''
                        @ constraintName @ '';'') m1
      in b\<lparr>migration := m2\<rparr>)"

definition AddCheck ::
  "string \<Rightarrow> string \<Rightarrow> string \<Rightarrow> MigrationBuilder \<Rightarrow> MigrationBuilder" where
  "AddCheck tableName constraintName condition b =
     (let query = ''ALTER TABLE '' @ tableName @ '' ADD CONSTRAINT '' @ constraintName
                  @ '' CHECK ('' @ condition @ '');'';
          m1 = AddUp query (migration b);
          m2 = AddDown (''ALTER TABLE '' @ tableName @ '' DROP CONSTRAINT IF EXISTS ''
                        @ constraintName @ '';'') m1
      in b\<lparr>migration := m2\<rparr>)"

definition RawUp :: "string \<Rightarrow> MigrationBuilder \<Rightarrow> MigrationBuilder" where
  "RawUp query b = b\<lparr>migration := AddUp query (migration b)\<rparr>"

definition RawDown :: "string \<Rightarrow> MigrationBuilder \<Rightarrow> MigrationBuilder" where
  "RawDown query b = b\<lparr>migration := AddDown query (migration b)\<rparr>"

definition Raw :: "string \<Rightarrow> string \<Rightarrow> MigrationBuilder \<Rightarrow> MigrationBuilder" where
  "Raw upQuery downQuery b =
     (let m1 = AddUp upQuery (migration b);
          m2 = AddDown downQuery m1
      in b\<lparr>migration := m2\<rparr>)"

definition Build :: "MigrationBuilder \<Rightarrow> Migration" where
  "Build b = migration b"

section \<open>The store behind \<open>database/sql\<close>\<close>

text \<open>
  \<open>MigrationStatus\<close> is a row of the Ledger table \<open>schema_migrations\<close> as the
  engine scans it. \<open>Batch\<close> is a Go \<open>int\<close> (64 bits; the one addition the engine
  performs on it is written with its wrap-around). \<open>AppliedAt\<close> is the time stamp the
  store assigns at insertion.
\<close>

record MigrationStatus =
  ID :: string
  Description :: string
  AppliedAt :: nat
  Batch :: int

datatype error =
    ErrMigrationFailed
  | ErrFailedToCreateSchemaMigrationsTable
  | ErrFailedToCreateSchemaMigrationsIndex
  | ErrFailedToGetAppliedMigrations
  | ErrFailedToBeginTransaction
  | ErrNoMigrationsToRollback
  | ErrFailedToExecuteQuery
  | DriverError string
  | Join error error

text \<open>
  The calls the engine makes on the \<open>database/sql\<close> handle and on its transaction.
  \<open>SqlScan\<close> and \<open>SqlRowsErr\<close> are the two client-side steps of reading a result
  set that can fail; they are never recorded as calls.
\<close>

datatype call =
    SqlCreateTable
  | SqlCreateIndex
  | SqlSelect
  | SqlScan
  | SqlRowsErr
  | SqlBegin
  | SqlExec string
  | SqlInsert string string int
  | SqlDelete string
  | SqlCommit
  | SqlRollback

text \<open>
  The store holds the Ledger rows and the rest of the schema, of an arbitrary type
  \<open>'s\<close>. The environment of one engine call is a \<open>driver\<close>: the meaning \<open>sem\<close> of a
  migration statement on the schema (\<open>Inl\<close> is the store's error message), the calls
  that fail for a reason of the environment (\<open>fault\<close>: connection lost, permission
  denied), the time \<open>now\<close> of the store's clock, and the choices \<open>sortChoice\<close> of
  the Go runtime's \<open>sort.Slice\<close> among elements that compare equal (see \<open>sortSlice\<close>
  below). Migration statements act on the
  schema; the Ledger table is written by the engine's own \<open>INSERT\<close> and \<open>DELETE\<close>
  only. The store is transactional: what a transaction did becomes durable at its
  commit and is discarded at its rollback.
\<close>

record 's store =
  ledger :: "MigrationStatus list"
  schema :: 's

record 's driver =
  sem :: "string \<Rightarrow> 's \<Rightarrow> string + 's"
  fault :: "call \<Rightarrow> string option"
  now :: nat
  sortChoice :: "nat \<Rightarrow> (nat \<Rightarrow> nat \<Rightarrow> bool) \<Rightarrow> nat list"

text \<open>
  \<open>sqlDB\<close> is the state behind the \<open>*sql.DB\<close> handle: the durable state of the
  store, the working state of the open transaction (if any), and the calls made so far.
\<close>

record 's sqlDB =
  committed :: "'s store"
  tx :: "'s store option"
  calls :: "call list"

definition send :: "call \<Rightarrow> 's sqlDB \<Rightarrow> 's sqlDB" where
  "send c d = d\<lparr>calls := calls d @ [c]\<rparr>"

definition ErrTxDone :: error where
  "ErrTxDone = DriverError ''sql: transaction has already been committed or rolled back''"

text \<open>What a statement of a transaction does to the working state of the store.\<close>

fun applyCall :: "'s driver \<Rightarrow> call \<Rightarrow> 's store \<Rightarrow> string + 's store" where
  "applyCall drv (SqlExec query) w =
     (case sem drv query (schema w) of
        Inl msg \<Rightarrow> Inl msg
      | Inr s' \<Rightarrow> Inr (w\<lparr>schema := s'\<rparr>))"
| "applyCall drv (SqlInsert i desc batch) w =
     (if i \<in> ID ` set (ledger w) then Inl ''UNIQUE constraint failed: schema_migrations.id''
      else Inr (w\<lparr>ledger := ledger w @
                  [\<lparr>ID = i, Description = desc, AppliedAt = now drv, Batch = batch\<rparr>]\<rparr>))"
| "applyCall drv (SqlDelete i) w = Inr (w\<lparr>ledger := filter (\<lambda>row. ID row \<noteq> i) (ledger w)\<rparr>)"
| "applyCall drv _ w = Inr w"

definition BeginTx :: "'s driver \<Rightarrow> 's sqlDB \<Rightarrow> error option \<times> 's sqlDB" where
  "BeginTx drv d =
     (case fault drv SqlBegin of
        Some msg \<Rightarrow> (Some (DriverError msg), send SqlBegin d)
      | None \<Rightarrow> (None, (send SqlBegin d)\<lparr>tx := Some (committed d)\<rparr>))"

definition ExecContext :: "'s driver \<Rightarrow> call \<Rightarrow> 's sqlDB \<Rightarrow> error option \<times> 's sqlDB" where
  "ExecContext drv c d =
     (case fault drv c of
        Some msg \<Rightarrow> (Some (DriverError msg), send c d)
      | None \<Rightarrow>
          (case tx d of
             None \<Rightarrow> (Some ErrTxDone, send c d)
           | Some w \<Rightarrow>
               (case applyCall drv c w of
                  Inl msg \<Rightarrow> (Some (DriverError msg), send c d)
                | Inr w' \<Rightarrow> (None, (send c d)\<lparr>tx := Some w'\<rparr>))))"

definition Commit :: "'s driver \<Rightarrow> 's sqlDB \<Rightarrow> error option \<times> 's sqlDB" where
  "Commit drv d =
     (case fault drv SqlCommit of
        Some msg \<Rightarrow> (Some (DriverError msg), (send SqlCommit d)\<lparr>tx := None\<rparr>)
      | None \<Rightarrow>
          (case tx d of
             None \<Rightarrow> (Some ErrTxDone, send SqlCommit d)
           | Some w \<Rightarrow> (None, (send SqlCommit d)\<lparr>committed := w, tx := None\<rparr>)))"

definition Rollback :: "'s sqlDB \<Rightarrow> 's sqlDB" where
  "Rollback d = (send SqlRollback d)\<lparr>tx := None\<rparr>"

text \<open>
  Insertion sort by a comparator: \<open>insertLess lt x ys\<close> puts \<open>x\<close> before the first
  element of \<open>ys\<close> that is not less than it. It is stable.
\<close>

fun insertLess :: "('a \<Rightarrow> 'a \<Rightarrow> bool) \<Rightarrow> 'a \<Rightarrow> 'a list \<Rightarrow> 'a list" where
  "insertLess lt x [] = [x]"
| "insertLess lt x (y # ys) =
     (if lt y x then y # insertLess lt x ys else x # y # ys)"

definition insertionSort :: "('a \<Rightarrow> 'a \<Rightarrow> bool) \<Rightarrow> 'a list \<Rightarrow> 'a list" where
  "insertionSort lt xs = foldr (insertLess lt) xs []"

text \<open>
  \<open>sort.Slice(xs, less)\<close> sorts in place by the comparator, and it is not stable: it
  runs insertion sort on slices of at most 12 elements and a pattern-defeating quicksort
  on longer ones, so the order in which it leaves elements that compare equal depends
  on its algorithm. What it guarantees is a result that is sorted by \<open>less\<close> and a
  permutation of the slice. Every such result is the stable sort of some arrangement of
  the slice (of the result itself, for one), and every stable sort of an arrangement is
  such a result. So \<open>sort.Slice\<close> is modelled as the stable sort of the arrangement the
  runtime chooses: \<open>choice n less\<close> lists the indices of a slice of length \<open>n\<close>, given the
  comparator on the indices, in the chosen arrangement. A list that is not a
  permutation of the indices is read as the slice's own order.
\<close>

definition arrange :: "nat list \<Rightarrow> 'a list \<Rightarrow> 'a list" where
  "arrange p xs = (if sort p = [0..<length xs] then map (\<lambda>i. xs ! i) p else xs)"

definition sortSlice ::
  "(nat \<Rightarrow> (nat \<Rightarrow> nat \<Rightarrow> bool) \<Rightarrow> nat list) \<Rightarrow> ('a \<Rightarrow> 'a \<Rightarrow> bool) \<Rightarrow> 'a list \<Rightarrow> 'a list" where
  "sortSlice choice lt xs =
     insertionSort lt
       (arrange
          (choice (length xs)
             (\<lambda>i j. i < length xs \<and> j < length xs \<and> lt (xs ! i) (xs ! j)))
          xs)"

text \<open>
  \<open>SELECT id, description, applied_at, batch FROM schema_migrations ORDER BY batch, id\<close>:
  the store's own ordering of the rows.
\<close>

definition selectLedger :: "'s store \<Rightarrow> MigrationStatus list" where
  "selectLedger st =
     insertionSort (\<lambda>a b. Batch a < Batch b \<or> (Batch a = Batch b \<and> ID a < ID b)) (ledger st)"

section \<open>The Migrator\<close>

text \<open>
  The mutex \<open>mu\<close> makes each of \<open>Register\<close>, \<open>Up\<close>, \<open>Down\<close> and \<open>Status\<close> run
  alone on a Migrator; a call is modelled as one step from the state before it to the
  state after it.
\<close>

record 's Migrator =
  db :: "'s sqlDB"
  migrations :: "Migration list"

definition New :: "'s sqlDB \<Rightarrow> 's Migrator" where
  "New d = \<lparr>db = d, migrations = []\<rparr>"

definition Register :: "Migration list \<Rightarrow> 's Migrator \<Rightarrow> 's Migrator" where
  "Register ms r = r\<lparr>migrations := migrations r @ ms\<rparr>"

text \<open>\<open>CREATE TABLE IF NOT EXISTS\<close> and \<open>CREATE INDEX IF NOT EXISTS\<close> leave the rows
  of the Ledger as they are; a Ledger table that does not exist yet has no rows.\<close>

definition createMigrationTable :: "'s driver \<Rightarrow> 's sqlDB \<Rightarrow> error option \<times> 's sqlDB" where
  "createMigrationTable drv d =
     (case fault drv SqlCreateTable of
        Some msg \<Rightarrow>
          (Some (Join ErrFailedToCreateSchemaMigrationsTable (DriverError msg)),
           send SqlCreateTable d)
      | None \<Rightarrow>
          (case fault drv SqlCreateIndex of
             Some msg \<Rightarrow>
               (Some (Join ErrFailedToCreateSchemaMigrationsIndex (DriverError msg)),
                send SqlCreateIndex (send SqlCreateTable d))
           | None \<Rightarrow> (None, send SqlCreateIndex (send SqlCreateTable d))))"

definition getAppliedMigrations ::
  "'s driver \<Rightarrow> 's sqlDB \<Rightarrow> (error + MigrationStatus list) \<times> 's sqlDB" where
  "getAppliedMigrations drv d =
     (case createMigrationTable drv d of
        (Some err, d1) \<Rightarrow> (Inl err, d1)
      | (None, d1) \<Rightarrow>
          (case fault drv SqlSelect of
             Some msg \<Rightarrow> (Inl (DriverError msg), send SqlSelect d1)
           | None \<Rightarrow>
               (let rows = selectLedger (committed d1); d2 = send SqlSelect d1 in
                case (if rows = [] then None else fault drv SqlScan) of
                  Some msg \<Rightarrow> (Inl (DriverError msg), d2)
                | None \<Rightarrow>
                    (case fault drv SqlRowsErr of
                       Some msg \<Rightarrow> (Inl (DriverError msg), d2)
                     | None \<Rightarrow> (Inr rows, d2)))))"

text \<open>Go's \<open>int\<close> addition wraps around at 64 bits.\<close>

definition wrapInt :: "int \<Rightarrow> int" where
  "wrapInt x = (x + 2 ^ 63) mod 2 ^ 64 - 2 ^ 63"

definition getNextBatchNumber :: "MigrationStatus list \<Rightarrow> int" where
  "getNextBatchNumber applied =
     (let maxBatch = fold (\<lambda>mig maxBatch. if Batch mig > maxBatch then Batch mig else maxBatch)
                       applied 0
      in wrapInt (maxBatch + 1))"

fun executeQueriesUp :: "'s driver \<Rightarrow> string list \<Rightarrow> 's sqlDB \<Rightarrow> error option \<times> 's sqlDB" where
  "executeQueriesUp drv [] d = (None, d)"
| "executeQueriesUp drv (query # queries) d =
     (if TrimSpace query = [] then executeQueriesUp drv queries d
      else case ExecContext drv (SqlExec query) d of
             (Some err, d') \<Rightarrow> (Some (Join ErrFailedToExecuteQuery err), d')
           | (None, d') \<Rightarrow> executeQueriesUp drv queries d')"

definition executeMigrationUp ::
  "'s driver \<Rightarrow> Migration \<Rightarrow> int \<Rightarrow> 's sqlDB \<Rightarrow> error option \<times> 's sqlDB" where
  "executeMigrationUp drv mig batch d =
     (case executeQueriesUp drv (Migration_Up mig) d of
        (Some err, d') \<Rightarrow> (Some err, d')
      | (None, d') \<Rightarrow>
          ExecContext drv
            (SqlInsert (Migration_ID mig) (Migration_Description mig) batch) d')"

fun executeMigrations ::
  "'s driver \<Rightarrow> Migration list \<Rightarrow> int \<Rightarrow> 's sqlDB \<Rightarrow> error option \<times> 's sqlDB" where
  "executeMigrations drv [] batch d = (None, d)"
| "executeMigrations drv (mig # ms) batch d =
     (case executeMigrationUp drv mig batch d of
        (Some err, d') \<Rightarrow> (Some (Join ErrMigrationFailed err), d')
      | (None, d') \<Rightarrow> executeMigrations drv ms batch d')"

text \<open>The deferred function rolls the transaction back on every return but the one
  after a successful commit.\<close>

definition executeMigrationBatch ::
  "'s driver \<Rightarrow> Migration list \<Rightarrow> int \<Rightarrow> 's sqlDB \<Rightarrow> error option \<times> 's sqlDB" where
  "executeMigrationBatch drv ms batch d =
     (case BeginTx drv d of
        (Some err, d1) \<Rightarrow> (Some (Join ErrFailedToBeginTransaction err), d1)
      | (None, d1) \<Rightarrow>
          (case executeMigrations drv ms batch d1 of
             (Some err, d2) \<Rightarrow> (Some err, Rollback d2)
           | (None, d2) \<Rightarrow>
               (case Commit drv d2 of
                  (Some err, d3) \<Rightarrow> (Some err, Rollback d3)
                | (None, d3) \<Rightarrow> (None, d3))))"

definition buildAppliedMap :: "MigrationStatus list \<Rightarrow> (string \<rightharpoonup> bool)" where
  "buildAppliedMap applied = fold (\<lambda>a appliedMap. appliedMap(ID a \<mapsto> True)) applied Map.empty"

text \<open>Reading a Go map of booleans at a key it does not hold gives \<open>false\<close>.\<close>

definition lookupBool :: "(string \<rightharpoonup> bool) \<Rightarrow> string \<Rightarrow> bool" where
  "lookupBool m k = (case m k of None \<Rightarrow> False | Some v \<Rightarrow> v)"

text \<open>\<open>Up\<close> sorts \<open>r.migrations\<close> itself: the local slice shares its array.\<close>

definition Up :: "'s driver \<Rightarrow> 's Migrator \<Rightarrow> error option \<times> 's Migrator" where
  "Up drv r =
     (case getAppliedMigrations drv (db r) of
        (Inl err, d1) \<Rightarrow> (Some (Join ErrFailedToGetAppliedMigrations err), r\<lparr>db := d1\<rparr>)
      | (Inr applied, d1) \<Rightarrow>
          (let appliedMap = buildAppliedMap applied;
               sortedMigrations =
                 sortSlice (sortChoice drv) (\<lambda>a b. Migration_ID a < Migration_ID b)
                   (migrations r);
               newMigrations =
                 filter (\<lambda>m. \<not> lookupBool appliedMap (Migration_ID m)) sortedMigrations
           in if length newMigrations = 0
              then (None, r\<lparr>db := d1, migrations := sortedMigrations\<rparr>)
              else
                (let nextBatch = getNextBatchNumber applied in
                 case executeMigrationBatch drv newMigrations nextBatch d1 of
                   (res, d2) \<Rightarrow> (res, r\<lparr>db := d2, migrations := sortedMigrations\<rparr>))))"

definition buildMigrationMap :: "Migration list \<Rightarrow> (string \<rightharpoonup> Migration)" where
  "buildMigrationMap ms = fold (\<lambda>m migrationMap. migrationMap(Migration_ID m \<mapsto> m)) ms Map.empty"

text \<open>\<open>buildRollbackList\<close> takes the runtime's choice for its \<open>sort.Slice\<close>.\<close>

definition buildRollbackList ::
  "(nat \<Rightarrow> (nat \<Rightarrow> nat \<Rightarrow> bool) \<Rightarrow> nat list) \<Rightarrow> MigrationStatus list \<Rightarrow> int
     \<Rightarrow> MigrationStatus list" where
  "buildRollbackList choice applied steps =
     (let sortedApplied =
            sortSlice choice (\<lambda>a b. Batch a > Batch b \<or> (Batch a = Batch b \<and> ID a > ID b))
              applied;
          steps' = (if steps \<le> 0 \<or> steps > int (length sortedApplied)
                    then int (length sortedApplied) else steps)
      in take (nat steps') sortedApplied)"

definition deleteMigrationRecord :: "'s driver \<Rightarrow> string \<Rightarrow> 's sqlDB \<Rightarrow> error option \<times> 's sqlDB" where
  "deleteMigrationRecord drv migrationID d = ExecContext drv (SqlDelete migrationID) d"

fun executeQueriesDown :: "'s driver \<Rightarrow> string list \<Rightarrow> 's sqlDB \<Rightarrow> error option \<times> 's sqlDB" where
  "executeQueriesDown drv [] d = (None, d)"
| "executeQueriesDown drv (query # queries) d =
     (let trimmedQuery = TrimSpace query in
      if trimmedQuery = [] \<or> HasPrefix trimmedQuery ''--'' then executeQueriesDown drv queries d
      else case ExecContext drv (SqlExec query) d of
             (Some err, d') \<Rightarrow> (Some (Join ErrMigrationFailed err), d')
           | (None, d') \<Rightarrow> executeQueriesDown drv queries d')"

definition rollbackSingleMigration ::
  "'s driver \<Rightarrow> MigrationStatus \<Rightarrow> (string \<rightharpoonup> Migration) \<Rightarrow> 's sqlDB
     \<Rightarrow> error option \<times> 's sqlDB" where
  "rollbackSingleMigration drv migrationStatus migrationMap d =
     (case (case migrationMap (ID migrationStatus) of
              Some mig \<Rightarrow> executeQueriesDown drv (Migration_Down mig) d
            | None \<Rightarrow> (None, d)) of
        (Some err, d') \<Rightarrow> (Some err, d')
      | (None, d') \<Rightarrow>
          (case deleteMigrationRecord drv (ID migrationStatus) d' of
             (Some err, d'') \<Rightarrow> (Some (Join ErrMigrationFailed err), d'')
           | (None, d'') \<Rightarrow> (None, d'')))"

fun rollbackMigrations ::
  "'s driver \<Rightarrow> MigrationStatus list \<Rightarrow> (string \<rightharpoonup> Migration) \<Rightarrow> 's sqlDB
     \<Rightarrow> error option \<times> 's sqlDB" where
  "rollbackMigrations drv [] migrationMap d = (None, d)"
| "rollbackMigrations drv (migrationStatus # rest) migrationMap d =
     (case rollbackSingleMigration drv migrationStatus migrationMap d of
        (Some err, d') \<Rightarrow> (Some err, d')
      | (None, d') \<Rightarrow> rollbackMigrations drv rest migrationMap d')"

definition executeRollback ::
  "'s driver \<Rightarrow> MigrationStatus list \<Rightarrow> (string \<rightharpoonup> Migration) \<Rightarrow> 's sqlDB
     \<Rightarrow> error option \<times> 's sqlDB" where
  "executeRollback drv rollbackList migrationMap d =
     (case BeginTx drv d of
        (Some err, d1) \<Rightarrow> (Some (Join ErrFailedToBeginTransaction err), d1)
      | (None, d1) \<Rightarrow>
          (case rollbackMigrations drv rollbackList migrationMap d1 of
             (Some err, d2) \<Rightarrow> (Some err, Rollback d2)
           | (None, d2) \<Rightarrow>
               (case Commit drv d2 of
                  (Some err, d3) \<Rightarrow> (Some err, Rollback d3)
                | (None, d3) \<Rightarrow> (None, d3))))"

definition Down :: "'s driver \<Rightarrow> int \<Rightarrow> 's Migrator \<Rightarrow> error option \<times> 's Migrator" where
  "Down drv steps r =
     (case getAppliedMigrations drv (db r) of
        (Inl err, d1) \<Rightarrow> (Some (Join ErrFailedToGetAppliedMigrations err), r\<lparr>db := d1\<rparr>)
      | (Inr applied, d1) \<Rightarrow>
          if length applied = 0 then (Some ErrNoMigrationsToRollback, r\<lparr>db := d1\<rparr>)
          else
            (let migrationMap = buildMigrationMap (migrations r);
                 rollbackList = buildRollbackList (sortChoice drv) applied steps
             in case executeRollback drv rollbackList migrationMap d1 of
                  (res, d2) \<Rightarrow> (res, r\<lparr>db := d2\<rparr>)))"

definition Status ::
  "'s driver \<Rightarrow> 's Migrator \<Rightarrow> (error + MigrationStatus list) \<times> 's Migrator" where
  "Status drv r =
     (case getAppliedMigrations drv (db r) of (res, d1) \<Rightarrow> (res, r\<lparr>db := d1\<rparr>))"

subsection \<open>White space: the library functions against the words of the specification\<close>

lemma enc_nonempty: "e \<in> set spaceEncodings \<Longrightarrow> e \<noteq> []"
  by (auto simp: spaceEncodings_def)

lemma enc_prefix_free_aux:
  "\<forall>e\<in>set spaceEncodings. \<forall>e'\<in>set spaceEncodings. prefix e e' \<longrightarrow> e = e'"
  unfolding spaceEncodings_def by simp

lemma enc_prefix_free:
  assumes "e \<in> set spaceEncodings" "e' \<in> set spaceEncodings" "prefix e s" "prefix e' s"
  shows "e = e'"
proof -
  from assms(3,4) have "prefix e e' \<or> prefix e' e"
    by (rule prefix_same_cases)
  then show ?thesis
    using assms(1,2) enc_prefix_free_aux by blast
qed

lemma spaceWidth_enc_append:
  assumes "e \<in> set spaceEncodings"
  shows "spaceWidth (e @ s) = length e"
proof (cases "e @ s" rule: spaceWidth_cases)
  case none
  then show ?thesis using assms by auto
next
  case (some e')
  then show ?thesis
    using enc_prefix_free [OF assms some(1) _ some(2)] by simp
qed

lemma spaceWidth_0_iff: "spaceWidth s = 0 \<longleftrightarrow> (\<forall>e\<in>set spaceEncodings. \<not> prefix e s)"
  by (cases s rule: spaceWidth_cases) (auto dest: enc_nonempty)

lemma spaceWidth_take_enc:
  assumes "0 < spaceWidth s"
  shows "take (spaceWidth s) s \<in> set spaceEncodings"
proof (cases s rule: spaceWidth_cases)
  case none
  then show ?thesis using assms by simp
next
  case (some e)
  then show ?thesis by (auto simp: prefix_def)
qed

lemma whitespaceOnly_trimLeft: "whitespaceOnly s \<Longrightarrow> trimLeft s = []"
proof (induction rule: whitespaceOnly.induct)
  case wsNil
  show ?case
    using spaceWidth_le [of "[]"] by (subst trimLeft.simps) simp
next
  case (wsCons e s)
  then show ?case
    using enc_nonempty [of e] by (subst trimLeft.simps) (simp add: spaceWidth_enc_append)
qed

lemma trimLeft_whitespaceOnly: "trimLeft s = [] \<Longrightarrow> whitespaceOnly s"
proof (induction s rule: trimLeft.induct)
  case (1 s)
  show ?case
  proof (cases "spaceWidth s = 0")
    case True
    with "1.prems" have "s = []"
      by (subst (asm) trimLeft.simps) simp
    then show ?thesis
      by (simp add: wsNil)
  next
    case False
    with "1.prems" have "trimLeft (drop (spaceWidth s) s) = []"
      by (subst (asm) trimLeft.simps) simp
    with False "1.IH" have "whitespaceOnly (drop (spaceWidth s) s)"
      by simp
    moreover have "take (spaceWidth s) s \<in> set spaceEncodings"
      using False by (simp add: spaceWidth_take_enc)
    ultimately have "whitespaceOnly (take (spaceWidth s) s @ drop (spaceWidth s) s)"
      by (rule wsCons [rotated])
    then show ?thesis by simp
  qed
qed

lemma trimLeft_head: "spaceWidth (trimLeft s) = 0"
  by (induction s rule: trimLeft.induct) (subst trimLeft.simps, simp)

lemma trimRight_keeps:
  "s \<noteq> [] \<Longrightarrow> spaceWidth s = 0 \<Longrightarrow> trimRight s \<noteq> [] \<and> spaceWidth (trimRight s) = 0"
proof (induction s rule: trimRight.induct)
  case (1 s)
  show ?case
  proof (cases s rule: spaceWidthBack_cases)
    case none
    then show ?thesis
      using "1.prems" by (subst trimRight.simps, subst trimRight.simps) simp
  next
    case (some e)
    define t where "t = take (length s - spaceWidthBack s) s"
    have s: "s = t @ e"
      using some by (auto simp: t_def suffix_def)
    have e: "e \<noteq> []"
      using some(1) by (rule enc_nonempty)
    have noprefix: "\<forall>e'\<in>set spaceEncodings. \<not> prefix e' s"
      using "1.prems"(2) by (simp add: spaceWidth_0_iff)
    have "t \<noteq> []"
      using noprefix some(1) s by auto
    moreover have "spaceWidth t = 0"
      unfolding spaceWidth_0_iff
      using noprefix s by (auto intro: prefix_prefix)
    moreover have pos: "spaceWidthBack s \<noteq> 0"
      using some(3) e by simp
    ultimately have "trimRight t \<noteq> [] \<and> spaceWidth (trimRight t) = 0"
      using "1.IH" unfolding t_def by blast
    moreover have "trimRight s = trimRight t"
      using pos by (subst trimRight.simps) (simp add: t_def)
    ultimately show ?thesis by simp
  qed
qed

lemma TrimSpace_Nil_iff: "TrimSpace s = [] \<longleftrightarrow> whitespaceOnly s"
proof
  assume "TrimSpace s = []"
  then have "trimLeft s = []"
    using trimRight_keeps [of "trimLeft s"] trimLeft_head [of s]
    by (auto simp: TrimSpace_def)
  then show "whitespaceOnly s"
    by (rule trimLeft_whitespaceOnly)
next
  assume "whitespaceOnly s"
  then have "trimLeft s = []"
    by (rule whitespaceOnly_trimLeft)
  then show "TrimSpace s = []"
    using spaceWidthBack_le [of "[]"] by (subst TrimSpace_def, subst trimRight.simps) simp
qed

lemma fieldsFrom_Nil_iff: "fieldsFrom cur s = [] \<longleftrightarrow> cur = [] \<and> whitespaceOnly s"
proof (induction cur s rule: fieldsFrom.induct)
  case (1 cur s)
  show ?case
  proof (cases "s = []")
    case True
    then show ?thesis
      by (subst fieldsFrom.simps) (simp add: wsNil)
  next
    case ne: False
    show ?thesis
    proof (cases "spaceWidth s = 0")
      case True
      have "\<not> whitespaceOnly s"
      proof
        assume "whitespaceOnly s"
        then show False
          using ne True by (cases rule: whitespaceOnly.cases) (auto simp: spaceWidth_enc_append dest: enc_nonempty)
      qed
      moreover have "fieldsFrom cur s \<noteq> []"
        using "1.IH"(1) [OF ne True] ne True by (subst fieldsFrom.simps) simp
      ultimately show ?thesis by simp
    next
      case False
      have enc: "take (spaceWidth s) s \<in> set spaceEncodings"
        using False by (simp add: spaceWidth_take_enc)
      have "whitespaceOnly s \<longleftrightarrow> whitespaceOnly (drop (spaceWidth s) s)"
      proof
        assume "whitespaceOnly s"
        then show "whitespaceOnly (drop (spaceWidth s) s)"
          using ne by (cases rule: whitespaceOnly.cases) (auto simp: spaceWidth_enc_append)
      next
        assume "whitespaceOnly (drop (spaceWidth s) s)"
        with enc have "whitespaceOnly (take (spaceWidth s) s @ drop (spaceWidth s) s)"
          by (rule wsCons)
        then show "whitespaceOnly s" by simp
      qed
      then show ?thesis
        using "1.IH"(2) [OF ne False] ne False by (subst fieldsFrom.simps) auto
    qed
  qed
qed

lemma Fields_Nil_iff: "Fields s = [] \<longleftrightarrow> whitespaceOnly s"
  by (simp add: Fields_def fieldsFrom_Nil_iff)

lemmas ws_eval = TrimSpace_def trimLeft.simps trimRight.simps spaceWidth_def spaceWidthBack_def
  spaceEncodings_def suffix_to_prefix Fields_def fieldsFrom.simps

section \<open>The builder surface\<close>

text \<open>
  A call appends one forward statement when the forward sequence after the call is
  the one before it followed by one more entry, and prepends one reverse statement
  when the reverse sequence after the call is one entry followed by the one before.
\<close>

definition appendsForward :: "MigrationBuilder \<Rightarrow> MigrationBuilder \<Rightarrow> bool" where
  "appendsForward b b' \<longleftrightarrow>
     upQueries (migration b') \<noteq> [] \<and>
     butlast (upQueries (migration b')) = upQueries (migration b)"

definition prependsReverse :: "MigrationBuilder \<Rightarrow> MigrationBuilder \<Rightarrow> bool" where
  "prependsReverse b b' \<longleftrightarrow>
     downQueries (migration b') \<noteq> [] \<and>
     tl (downQueries (migration b')) = downQueries (migration b)"

lemma AddUp_AddDown_adds:
  "appendsForward b (b\<lparr>migration := AddDown d (AddUp u (migration b))\<rparr>)"
  "prependsReverse b (b\<lparr>migration := AddDown d (AddUp u (migration b))\<rparr>)"
  by (simp_all add: appendsForward_def prependsReverse_def AddUp_def AddDown_def)

lemma AddUp_only:
  "appendsForward b (b\<lparr>migration := AddUp u (migration b)\<rparr>)"
  "downQueries (migration (b\<lparr>migration := AddUp u (migration b)\<rparr>)) = downQueries (migration b)"
  by (simp_all add: appendsForward_def AddUp_def)

lemma AddDown_only:
  "prependsReverse b (b\<lparr>migration := AddDown d (migration b)\<rparr>)"
  "upQueries (migration (b\<lparr>migration := AddDown d (migration b)\<rparr>)) = upQueries (migration b)"
  by (simp_all add: prependsReverse_def AddDown_def)

text \<open>
  C9 (as amended). Every structural call of the builder (create/drop table,
  add/drop/rename/change column, create/drop index, plain or unique, add/drop foreign
  key, auto-named or named, add primary key, add check) and the two-sided \<open>Raw\<close>
  appends exactly one statement to the forward sequence and prepends exactly one to
  the reverse sequence; for \<open>AddColumn\<close> this holds whenever the call returns.
  \<open>RawUp\<close> appends exactly one forward statement and leaves the reverse sequence as it
  was; \<open>RawDown\<close> prepends exactly one reverse statement and leaves the forward
  sequence as it was.
\<close>

theorem builder_call_adds_statements:
  "(appendsForward b (CreateTable tableName columns b) \<and>
    prependsReverse b (CreateTable tableName columns b)) \<and>
   (appendsForward b (DropTable tableName b) \<and>
    prependsReverse b (DropTable tableName b)) \<and>
   (\<forall>b'. AddColumn tableName columnDef b = Inr b' \<longrightarrow>
      appendsForward b b' \<and> prependsReverse b b') \<and>
   (appendsForward b (DropColumn tableName columnName b) \<and>
    prependsReverse b (DropColumn tableName columnName b)) \<and>
   (appendsForward b (RenameColumn tableName oldName newName b) \<and>
    prependsReverse b (RenameColumn tableName oldName newName b)) \<and>
   (appendsForward b (ChangeColumn tableName columnName newDefinition b) \<and>
    prependsReverse b (ChangeColumn tableName columnName newDefinition b)) \<and>
   (appendsForward b (CreateIndex indexName tableName columns b) \<and>
    prependsReverse b (CreateIndex indexName tableName columns b)) \<and>
   (appendsForward b (CreateUniqueIndex indexName tableName columns b) \<and>
    prependsReverse b (CreateUniqueIndex indexName tableName columns b)) \<and>
   (appendsForward b (DropIndex indexName b) \<and>
    prependsReverse b (DropIndex indexName b)) \<and>
   (appendsForward b (AddForeignKey tableName columnName refTable refColumn b) \<and>
    prependsReverse b (AddForeignKey tableName columnName refTable refColumn b)) \<and>
   (appendsForward b
      (AddForeignKeyWithName tableName constraintName columnName refTable refColumn b) \<and>
    prependsReverse b
      (AddForeignKeyWithName tableName constraintName columnName refTable refColumn b)) \<and>
   (appendsForward b (DropForeignKey tableName constraintName b) \<and>
    prependsReverse b (DropForeignKey tableName constraintName b)) \<and>
   (appendsForward b (AddPrimaryKey tableName constraintName columns b) \<and>
    prependsReverse b (AddPrimaryKey tableName constraintName columns b)) \<and>
   (appendsForward b (AddCheck tableName constraintName condition b) \<and>
    prependsReverse b (AddCheck tableName constraintName condition b)) \<and>
   (appendsForward b (Raw upQuery downQuery b) \<and>
    prependsReverse b (Raw upQuery downQuery b)) \<and>
   (appendsForward b (RawUp query b) \<and>
    downQueries (migration (RawUp query b)) = downQueries (migration b)) \<and>
   (prependsReverse b (RawDown query b) \<and>
    upQueries (migration (RawDown query b)) = upQueries (migration b))"
proof -
  have addColumn: "\<forall>b'. AddColumn tableName columnDef b = Inr b' \<longrightarrow>
      appendsForward b b' \<and> prependsReverse b b'"
    by (auto simp: AddColumn_def Let_def AddUp_AddDown_adds split: list.splits)
  show ?thesis
    unfolding CreateTable_def DropTable_def DropColumn_def RenameColumn_def ChangeColumn_def
      CreateIndex_def CreateUniqueIndex_def DropIndex_def AddForeignKey_def
      AddForeignKeyWithName_def DropForeignKey_def AddPrimaryKey_def AddCheck_def Raw_def
      RawUp_def RawDown_def Let_def
    using addColumn by (simp only: AddUp_AddDown_adds AddUp_only AddDown_only simp_thms)
qed

text \<open>
  The claim as stated fails at the raw escape hatches: \<open>RawUp\<close> prepends nothing to
  the reverse sequence, and \<open>RawDown\<close> appends nothing to the forward sequence.
\<close>

theorem raw_escape_hatch_counterexample:
  "\<not> prependsReverse (CreateMigration ''1'' ''raw up query'')
        (RawUp ''SELECT 1;'' (CreateMigration ''1'' ''raw up query'')) \<and>
   \<not> appendsForward (CreateMigration ''1'' ''raw down query'')
        (RawDown ''SELECT 2;'' (CreateMigration ''1'' ''raw down query''))"
  by (simp add: prependsReverse_def appendsForward_def RawUp_def RawDown_def
      CreateMigration_def AddUp_def AddDown_def)

theorem builder_call_adds_statements_witness:
  "AddColumn ''users'' ''email VARCHAR(255)'' (CreateMigration ''1'' ''add email'') =
     Inr \<lparr>migration =
            \<lparr>id' = ''1'', description = ''add email'',
             upQueries = [''ALTER TABLE users ADD COLUMN email VARCHAR(255);''],
             downQueries = [''ALTER TABLE users DROP COLUMN email;'']\<rparr>\<rparr> \<and>
   appendsForward (CreateMigration ''1'' ''add email'')
     \<lparr>migration =
        \<lparr>id' = ''1'', description = ''add email'',
         upQueries = [''ALTER TABLE users ADD COLUMN email VARCHAR(255);''],
         downQueries = [''ALTER TABLE users DROP COLUMN email;'']\<rparr>\<rparr> \<and>
   prependsReverse (CreateMigration ''1'' ''add email'')
     \<lparr>migration =
        \<lparr>id' = ''1'', description = ''add email'',
         upQueries = [''ALTER TABLE users ADD COLUMN email VARCHAR(255);''],
         downQueries = [''ALTER TABLE users DROP COLUMN email;'']\<rparr>\<rparr>"
proof -
  have run: "AddColumn ''users'' ''email VARCHAR(255)'' (CreateMigration ''1'' ''add email'') =
     Inr \<lparr>migration =
            \<lparr>id' = ''1'', description = ''add email'',
             upQueries = [''ALTER TABLE users ADD COLUMN email VARCHAR(255);''],
             downQueries = [''ALTER TABLE users DROP COLUMN email;'']\<rparr>\<rparr>"
    by (simp add: AddColumn_def Let_def CreateMigration_def AddUp_def AddDown_def ws_eval)
  from builder_call_adds_statements
    [of "CreateMigration ''1'' ''add email''" "''users''" _ "''email VARCHAR(255)''"]
    run show ?thesis
    by blast
qed

text \<open>
  C10. \<open>AddColumn\<close> returns exactly when the column definition has a character that
  is not white space. On an empty or whitespace-only definition
  \<open>strings.Fields\<close> yields no field and the access to field 0 panics (index 0 out
  of range for length 0); on every other definition the call succeeds, and the column
  name of the reverse statement is the first field of the definition.
\<close>

theorem AddColumn_total_iff_field:
  "(whitespaceOnly columnDef \<longrightarrow>
      AddColumn tableName columnDef b =
        Inl (IndexOutOfRange 0 0,
             b\<lparr>migration :=
                 AddUp (''ALTER TABLE '' @ tableName @ '' ADD COLUMN '' @ columnDef @ '';'')
                   (migration b)\<rparr>)) \<and>
   (\<not> whitespaceOnly columnDef \<longrightarrow>
      (\<exists>columnName rest. Fields columnDef = columnName # rest \<and>
         AddColumn tableName columnDef b =
           Inr (b\<lparr>migration :=
                    AddDown (''ALTER TABLE '' @ tableName @ '' DROP COLUMN '' @ columnName @ '';'')
                      (AddUp (''ALTER TABLE '' @ tableName @ '' ADD COLUMN '' @ columnDef @ '';'')
                         (migration b))\<rparr>)))"
proof (cases "Fields columnDef")
  case Nil
  then show ?thesis
    by (simp add: AddColumn_def Let_def Fields_Nil_iff [symmetric])
next
  case (Cons columnName rest)
  then have "\<not> whitespaceOnly columnDef"
    by (simp add: Fields_Nil_iff [symmetric])
  then show ?thesis
    using Cons by (simp add: AddColumn_def Let_def)
qed

theorem AddColumn_total_iff_field_witness:
  "whitespaceOnly [CHR 0x20, CHR 0x09, CHR 0xC2, CHR 0xA0] \<and>
   AddColumn ''users'' [CHR 0x20, CHR 0x09, CHR 0xC2, CHR 0xA0] (CreateMigration ''1'' ''d'') =
     Inl (IndexOutOfRange 0 0,
          \<lparr>migration =
             \<lparr>id' = ''1'', description = ''d'',
              upQueries = [''ALTER TABLE users ADD COLUMN '' @ [CHR 0x20, CHR 0x09, CHR 0xC2, CHR 0xA0] @ '';''],
              downQueries = []\<rparr>\<rparr>) \<and>
   \<not> whitespaceOnly ''email VARCHAR(255)'' \<and>
   AddColumn ''users'' ''email VARCHAR(255)'' (CreateMigration ''1'' ''d'') =
     Inr \<lparr>migration =
            \<lparr>id' = ''1'', description = ''d'',
             upQueries = [''ALTER TABLE users ADD COLUMN email VARCHAR(255);''],
             downQueries = [''ALTER TABLE users DROP COLUMN email;'']\<rparr>\<rparr>"
proof -
  have blank: "whitespaceOnly [CHR 0x20, CHR 0x09, CHR 0xC2, CHR 0xA0]"
    unfolding TrimSpace_Nil_iff [symmetric] by (simp add: ws_eval)
  have fields: "Fields ''email VARCHAR(255)'' = [''email'', ''VARCHAR(255)'']"
    by (simp add: ws_eval)
  then have nonblank: "\<not> whitespaceOnly ''email VARCHAR(255)''"
    unfolding Fields_Nil_iff [symmetric] by simp
  from AddColumn_total_iff_field
    [of "[CHR 0x20, CHR 0x09, CHR 0xC2, CHR 0xA0]" "''users''" "CreateMigration ''1'' ''d''"]
    blank
  have panics: "AddColumn ''users'' [CHR 0x20, CHR 0x09, CHR 0xC2, CHR 0xA0] (CreateMigration ''1'' ''d'') =
     Inl (IndexOutOfRange 0 0,
          (CreateMigration ''1'' ''d'')\<lparr>migration :=
             AddUp (''ALTER TABLE '' @ ''users'' @ '' ADD COLUMN '' @ [CHR 0x20, CHR 0x09, CHR 0xC2, CHR 0xA0] @ '';'')
               (migration (CreateMigration ''1'' ''d''))\<rparr>)"
    by blast
  from AddColumn_total_iff_field
    [of "''email VARCHAR(255)''" "''users''" "CreateMigration ''1'' ''d''"]
    nonblank fields
  have returns: "AddColumn ''users'' ''email VARCHAR(255)'' (CreateMigration ''1'' ''d'') =
     Inr ((CreateMigration ''1'' ''d'')\<lparr>migration :=
            AddDown (''ALTER TABLE '' @ ''users'' @ '' DROP COLUMN '' @ ''email'' @ '';'')
              (AddUp (''ALTER TABLE '' @ ''users'' @ '' ADD COLUMN '' @ ''email VARCHAR(255)'' @ '';'')
                 (migration (CreateMigration ''1'' ''d'')))\<rparr>)"
    by auto
  show ?thesis
    using blank nonblank panics returns
    by (simp add: CreateMigration_def AddUp_def AddDown_def)
qed

section \<open>Helper facts: sorting, the applied set, the next batch number\<close>


lemma mset_insertLess: "mset (insertLess lt x xs) = add_mset x (mset xs)"
proof (induction xs)
  case Nil
  show ?case by simp
next
  case (Cons y ys)
  show ?case
  proof (cases "lt y x")
    case True
    then have "mset (insertLess lt x (y # ys)) = add_mset y (mset (insertLess lt x ys))"
      by simp
    also have "\<dots> = add_mset y (add_mset x (mset ys))"
      by (simp only: Cons.IH)
    also have "\<dots> = add_mset x (mset (y # ys))"
      by (simp only: mset.simps add_mset_commute)
    finally show ?thesis .
  next
    case False
    then show ?thesis by simp
  qed
qed

lemma mset_insertionSort: "mset (insertionSort lt xs) = mset xs"
  by (induction xs) (auto simp: insertionSort_def mset_insertLess)

lemma set_insertLess: "set (insertLess lt x xs) = insert x (set xs)"
  by (induction xs) auto

lemma set_insertionSort: "set (insertionSort lt xs) = set xs"
  by (induction xs) (auto simp: insertionSort_def set_insertLess)

lemma length_insertLess: "length (insertLess lt x xs) = Suc (length xs)"
  by (induction xs) auto

lemma length_insertionSort: "length (insertionSort lt xs) = length xs"
  by (induction xs) (auto simp: insertionSort_def length_insertLess)

lemma sorted_wrt_insertLess:
  assumes trans: "\<And>a b c. \<not> lt b a \<Longrightarrow> \<not> lt c b \<Longrightarrow> \<not> lt c a"
    and asym: "\<And>a b. lt a b \<Longrightarrow> \<not> lt b a"
    and "sorted_wrt (\<lambda>a b. \<not> lt b a) xs"
  shows "sorted_wrt (\<lambda>a b. \<not> lt b a) (insertLess lt x xs)"
  using assms(3)
proof (induction xs)
  case Nil
  then show ?case by simp
next
  case (Cons y ys)
  from Cons.prems have above: "\<forall>z\<in>set ys. \<not> lt z y" and tail: "sorted_wrt (\<lambda>a b. \<not> lt b a) ys"
    by simp_all
  show ?case
  proof (cases "lt y x")
    case True
    then have "\<not> lt x y"
      by (rule asym)
    with above have "\<forall>z\<in>set (insertLess lt x ys). \<not> lt z y"
      by (simp add: set_insertLess)
    moreover have "sorted_wrt (\<lambda>a b. \<not> lt b a) (insertLess lt x ys)"
      using tail by (rule Cons.IH)
    ultimately show ?thesis
      using True by simp
  next
    case False
    have "\<not> lt z x" if "z \<in> set ys" for z
    proof -
      from that above have "\<not> lt z y" by blast
      with False show ?thesis by (rule trans)
    qed
    then show ?thesis
      using False Cons.prems by simp
  qed
qed

lemma sorted_wrt_insertionSort:
  assumes "\<And>a b c. \<not> lt b a \<Longrightarrow> \<not> lt c b \<Longrightarrow> \<not> lt c a"
    and "\<And>a b. lt a b \<Longrightarrow> \<not> lt b a"
  shows "sorted_wrt (\<lambda>a b. \<not> lt b a) (insertionSort lt xs)"
proof (induction xs)
  case Nil
  show ?case by (simp add: insertionSort_def)
next
  case (Cons x xs)
  have "insertionSort lt (x # xs) = insertLess lt x (insertionSort lt xs)"
    by (simp add: insertionSort_def)
  moreover have "sorted_wrt (\<lambda>a b. \<not> lt b a) (insertLess lt x (insertionSort lt xs))"
    by (rule sorted_wrt_insertLess) (fact assms(1), fact assms(2), fact Cons)
  ultimately show ?case
    by (simp only:)
qed

lemma insertLess_sorted_id:
  "sorted_wrt (\<lambda>a b. \<not> lt b a) (x # xs) \<Longrightarrow> insertLess lt x xs = x # xs"
  by (cases xs) auto

lemma insertionSort_sorted_id:
  "sorted_wrt (\<lambda>a b. \<not> lt b a) xs \<Longrightarrow> insertionSort lt xs = xs"
proof (induction xs)
  case Nil
  show ?case by (simp add: insertionSort_def)
next
  case (Cons x xs)
  then have "insertionSort lt xs = xs" by simp
  then have "insertionSort lt (x # xs) = insertLess lt x xs"
    by (simp add: insertionSort_def)
  then show ?case
    using Cons.prems by (simp add: insertLess_sorted_id)
qed

text \<open>\<open>sort.Slice\<close>: whatever the runtime chooses, a sorted permutation of the slice.\<close>

lemma mset_arrange: "mset (arrange p xs) = mset xs"
proof (cases "sort p = [0..<length xs]")
  case True
  then have "mset p = mset [0..<length xs]"
    by (metis mset_sort)
  then have "image_mset (\<lambda>i. xs ! i) (mset p) = image_mset (\<lambda>i. xs ! i) (mset [0..<length xs])"
    by (rule arg_cong)
  then have "mset (map (\<lambda>i. xs ! i) p) = mset (map (\<lambda>i. xs ! i) [0..<length xs])"
    by (simp only: mset_map)
  then show ?thesis
    using True by (simp add: arrange_def map_nth)
next
  case False
  then show ?thesis
    by (simp add: arrange_def)
qed

lemma mset_sortSlice: "mset (sortSlice choice lt xs) = mset xs"
  by (simp add: sortSlice_def mset_insertionSort mset_arrange)

lemma set_sortSlice: "set (sortSlice choice lt xs) = set xs"
  using mset_sortSlice [of choice lt xs] by (rule mset_eq_setD)

lemma length_sortSlice: "length (sortSlice choice lt xs) = length xs"
  using mset_sortSlice [of choice lt xs] by (rule mset_eq_length)

lemma sorted_wrt_sortSlice:
  assumes "\<And>a b c. \<not> lt b a \<Longrightarrow> \<not> lt c b \<Longrightarrow> \<not> lt c a"
    and "\<And>a b. lt a b \<Longrightarrow> \<not> lt b a"
  shows "sorted_wrt (\<lambda>a b. \<not> lt b a) (sortSlice choice lt xs)"
  unfolding sortSlice_def by (rule sorted_wrt_insertionSort) (fact assms(1), fact assms(2))

lemma sorted_ids_sortSlice:
  "sorted (map Migration_ID (sortSlice choice (\<lambda>a b. Migration_ID a < Migration_ID b) ms))"
proof -
  have "sorted_wrt (\<lambda>a b. \<not> Migration_ID b < Migration_ID a)
          (sortSlice choice (\<lambda>a b. Migration_ID a < Migration_ID b) ms)"
    by (rule sorted_wrt_sortSlice) auto
  then show ?thesis
    by (simp add: sorted_map not_less)
qed

text \<open>
  The choice matters only among elements that compare equal: with the indices reversed,
  two migrations of one identifier come out in the other order.
\<close>

lemma sortSlice_not_stable:
  "sortSlice (\<lambda>n lt. [0, 1]) (\<lambda>a b. fst a < fst b) [(1::nat, True), (1, False)] =
     [(1, True), (1, False)] \<and>
   sortSlice (\<lambda>n lt. [1, 0]) (\<lambda>a b. fst a < fst b) [(1::nat, True), (1, False)] =
     [(1, False), (1, True)]"
  by (simp add: sortSlice_def arrange_def insertionSort_def)

text \<open>
  Conversely, every sorted permutation of the slice is the result of \<open>sortSlice\<close>
  under some choice: the model leaves out no result the runtime's algorithm may produce.
\<close>

lemma arrangement_of_permutation:
  "mset ys = mset xs \<Longrightarrow> \<exists>p. mset p = mset [0..<length xs] \<and> map (\<lambda>i. xs ! i) p = ys"
proof (induction xs arbitrary: ys)
  case Nil
  then show ?case by simp
next
  case (Cons x xs)
  from Cons.prems have "x \<in> set ys"
    by (metis list.set_intros(1) mset_eq_setD)
  then obtain us vs where ys: "ys = us @ x # vs"
    by (auto dest: split_list)
  with Cons.prems have "mset (us @ vs) = mset xs"
    by simp
  from Cons.IH [OF this] obtain q where q: "mset q = mset [0..<length xs]"
    and mq: "map (\<lambda>i. xs ! i) q = us @ vs"
    by blast
  let ?p = "map Suc (take (length us) q) @ 0 # map Suc (drop (length us) q)"
  have "mset ?p = add_mset 0 (image_mset Suc (mset (take (length us) q @ drop (length us) q)))"
    by (simp only: mset_append mset.simps mset_map image_mset_union union_mset_add_mset_right)
  also have "\<dots> = add_mset 0 (image_mset Suc (mset [0..<length xs]))"
    by (simp only: append_take_drop_id q)
  also have "\<dots> = mset (0 # map Suc [0..<length xs])"
    by (simp only: mset.simps mset_map)
  also have "0 # map Suc [0..<length xs] = [0..<length (x # xs)]"
    by (simp only: map_Suc_upt length_Cons upt_conv_Cons [OF zero_less_Suc])
  finally have a: "mset ?p = mset [0..<length (x # xs)]" .
  have "map (\<lambda>i. (x # xs) ! i) ?p =
      map (\<lambda>i. xs ! i) (take (length us) q) @ x # map (\<lambda>i. xs ! i) (drop (length us) q)"
    by (simp add: comp_def)
  also have "\<dots> = take (length us) (us @ vs) @ x # drop (length us) (us @ vs)"
    by (simp only: take_map [symmetric] drop_map [symmetric] mq)
  also have "\<dots> = ys"
    by (simp add: ys)
  finally have b: "map (\<lambda>i. (x # xs) ! i) ?p = ys" .
  from a b show ?case
    by blast
qed

lemma sortSlice_complete:
  assumes "mset ys = mset xs" and "sorted_wrt (\<lambda>a b. \<not> lt b a) ys"
  shows "\<exists>p. sortSlice (\<lambda>n less. p) lt xs = ys"
proof -
  from arrangement_of_permutation [OF assms(1)]
  obtain p where p: "mset p = mset [0..<length xs]" and m: "map (\<lambda>i. xs ! i) p = ys"
    by blast
  have "sort p = [0..<length xs]"
    by (rule properties_for_sort) (simp_all only: p sorted_upt)
  then have "arrange p xs = ys"
    by (simp add: arrange_def m)
  then have "sortSlice (\<lambda>n less. p) lt xs = ys"
    by (simp add: sortSlice_def insertionSort_sorted_id [OF assms(2)])
  then show ?thesis ..
qed

lemma mset_selectLedger: "mset (selectLedger st) = mset (ledger st)"
  by (simp add: selectLedger_def mset_insertionSort)

lemma set_selectLedger: "set (selectLedger st) = set (ledger st)"
  by (simp add: selectLedger_def set_insertionSort)

lemma selectLedger_Nil_iff: "selectLedger st = [] \<longleftrightarrow> ledger st = []"
  using length_insertionSort [of _ "ledger st"] unfolding selectLedger_def
  by (simp only: length_0_conv [symmetric])

lemma buildAppliedMap_fold:
  "fold (\<lambda>a appliedMap. appliedMap(ID a \<mapsto> True)) applied m k =
     (if k \<in> ID ` set applied then Some True else m k)"
  by (induction applied arbitrary: m) auto

lemma lookupBool_buildAppliedMap:
  "lookupBool (buildAppliedMap applied) k \<longleftrightarrow> k \<in> ID ` set applied"
  by (simp add: lookupBool_def buildAppliedMap_def buildAppliedMap_fold)

lemma fold_max_batch:
  "fold (\<lambda>mig maxBatch. if Batch mig > maxBatch then Batch mig else maxBatch) applied b =
     Max (insert b (Batch ` set applied))"
proof (induction applied arbitrary: b)
  case Nil
  show ?case by simp
next
  case (Cons a applied)
  let ?S = "Batch ` set applied"
  have step: "(if b < Batch a then Batch a else b) = max b (Batch a)"
    by (auto simp: max_def)
  have "Max (insert (max b (Batch a)) ?S) = Max (insert b (insert (Batch a) ?S))"
    by (cases "?S = {}") (simp_all add: max.assoc)
  then show ?case
    using Cons [of "max b (Batch a)"] step by simp
qed

lemma getNextBatchNumber_Max:
  "getNextBatchNumber applied = wrapInt (Max (insert 0 (Batch ` set applied)) + 1)"
  by (simp add: getNextBatchNumber_def fold_max_batch)

section \<open>Runs inside a transaction\<close>


text \<open>
  \<open>runCalls\<close> is the meaning of a sequence of transaction statements on the working
  state of the store: each in turn, stopping at the first that the store rejects.
\<close>

fun runCalls :: "'s driver \<Rightarrow> call list \<Rightarrow> 's store \<Rightarrow> string + 's store" where
  "runCalls drv [] w = Inr w"
| "runCalls drv (c # cs) w =
     (case applyCall drv c w of Inl msg \<Rightarrow> Inl msg | Inr w' \<Rightarrow> runCalls drv cs w')"

text \<open>
  \<open>txRun drv plan d (res, d')\<close>: a piece of code running inside the open transaction
  took the handle from \<open>d\<close> to \<open>d'\<close>; it left the durable state alone, the calls it
  made are a prefix of \<open>plan\<close>, and if it returned no error it made all of them and the
  working state of the transaction is the one \<open>plan\<close> yields.
\<close>

definition txRun :: "'s driver \<Rightarrow> call list \<Rightarrow> 's sqlDB \<Rightarrow> error option \<times> 's sqlDB \<Rightarrow> bool" where
  "txRun drv plan d out \<longleftrightarrow>
     committed (snd out) = committed d \<and>
     (\<exists>xs. calls (snd out) = calls d @ xs \<and> prefix xs plan \<and>
        (fst out = None \<longrightarrow>
           xs = plan \<and>
           rel_option (\<lambda>w w'. runCalls drv plan w = Inr w') (tx d) (tx (snd out))))"

lemma runCalls_append:
  "runCalls drv (cs @ cs') w =
     (case runCalls drv cs w of Inl msg \<Rightarrow> Inl msg | Inr w' \<Rightarrow> runCalls drv cs' w')"
  by (induction cs arbitrary: w) (simp_all split: sum.splits)

lemma txRun_Nil: "txRun drv [] d (None, d)"
  by (cases "tx d") (simp_all add: txRun_def)

lemma txRun_error: "txRun drv plan d (Some e, d') \<Longrightarrow> txRun drv plan d (Some e', d')"
  by (simp add: txRun_def)

lemma txRun_seq:
  assumes "txRun drv p1 d (None, d1)" and "txRun drv p2 d1 out"
  shows "txRun drv (p1 @ p2) d out"
proof -
  from assms(1) have c1: "committed d1 = committed d" and k1: "calls d1 = calls d @ p1"
    and t1: "rel_option (\<lambda>w w'. runCalls drv p1 w = Inr w') (tx d) (tx d1)"
    by (auto simp: txRun_def)
  from assms(2) obtain xs where c2: "committed (snd out) = committed d1"
    and k2: "calls (snd out) = calls d1 @ xs" and p2: "prefix xs p2"
    and ok: "fst out = None \<longrightarrow>
       xs = p2 \<and> rel_option (\<lambda>w w'. runCalls drv p2 w = Inr w') (tx d1) (tx (snd out))"
    by (auto simp: txRun_def)
  have "calls (snd out) = calls d @ (p1 @ xs)"
    using k1 k2 by simp
  moreover have "prefix (p1 @ xs) (p1 @ p2)"
    using p2 by simp
  moreover have "rel_option (\<lambda>w w'. runCalls drv (p1 @ p2) w = Inr w') (tx d) (tx (snd out))"
    if "fst out = None"
  proof -
    from that ok have t2: "rel_option (\<lambda>w w'. runCalls drv p2 w = Inr w') (tx d1) (tx (snd out))"
      by simp
    show ?thesis
    proof (cases "tx d")
      case None
      with t1 have "tx d1 = None" by simp
      with t2 have "tx (snd out) = None" by simp
      with None show ?thesis by simp
    next
      case (Some w)
      with t1 obtain w1 where w1: "tx d1 = Some w1" "runCalls drv p1 w = Inr w1"
        by (cases "tx d1") auto
      with t2 obtain w2 where w2: "tx (snd out) = Some w2" "runCalls drv p2 w1 = Inr w2"
        by (cases "tx (snd out)") auto
      show ?thesis
        using Some w1 w2 by (simp add: runCalls_append)
    qed
  qed
  ultimately show ?thesis
    unfolding txRun_def using c1 c2 ok by (intro conjI exI [of _ "p1 @ xs"]) auto
qed

lemma txRun_extend:
  assumes "txRun drv p1 d (Some e, d1)"
  shows "txRun drv (p1 @ p2) d (Some e', d1)"
proof -
  from assms obtain xs where "committed d1 = committed d" "calls d1 = calls d @ xs" "prefix xs p1"
    by (auto simp: txRun_def)
  then show ?thesis
    unfolding txRun_def by (auto intro: prefix_prefix)
qed

lemma txRun_ExecContext: "txRun drv [c] d (ExecContext drv c d)"
proof (cases "fault drv c")
  case (Some msg)
  then show ?thesis
    by (simp add: ExecContext_def txRun_def send_def)
next
  case None
  show ?thesis
  proof (cases "tx d")
    case noTx: None
    then show ?thesis
      using None by (simp add: ExecContext_def txRun_def send_def)
  next
    case (Some w)
    then show ?thesis
      using None by (cases "applyCall drv c w") (simp_all add: ExecContext_def txRun_def send_def)
  qed
qed

lemma txRun_step:
  assumes "txRun drv p1 d out1"
    and "\<And>d1. out1 = (None, d1) \<Longrightarrow> txRun drv p2 d1 (k d1)"
  shows "txRun drv (p1 @ p2) d
           (case out1 of (Some err, d1) \<Rightarrow> (Some (wrap err), d1) | (None, d1) \<Rightarrow> k d1)"
proof (cases out1)
  case (Pair res d1)
  show ?thesis
  proof (cases res)
    case None
    with Pair assms show ?thesis
      by (simp add: txRun_seq)
  next
    case (Some err)
    with Pair assms(1) show ?thesis
      by (simp add: txRun_extend)
  qed
qed

text \<open>The statements a migration sends when it is applied, and when a row is rolled back.\<close>

definition forwardStatements :: "Migration \<Rightarrow> string list" where
  "forwardStatements m = filter (\<lambda>query. TrimSpace query \<noteq> []) (Migration_Up m)"

definition reverseStatements :: "Migration \<Rightarrow> string list" where
  "reverseStatements m =
     filter (\<lambda>query. TrimSpace query \<noteq> [] \<and> \<not> HasPrefix (TrimSpace query) ''--'')
       (Migration_Down m)"

definition upCalls :: "int \<Rightarrow> Migration \<Rightarrow> call list" where
  "upCalls batch m =
     map SqlExec (forwardStatements m) @
     [SqlInsert (Migration_ID m) (Migration_Description m) batch]"

definition batchCalls :: "int \<Rightarrow> Migration list \<Rightarrow> call list" where
  "batchCalls batch ms = concat (map (upCalls batch) ms)"

definition downCalls :: "(string \<rightharpoonup> Migration) \<Rightarrow> MigrationStatus \<Rightarrow> call list" where
  "downCalls migrationMap row =
     (case migrationMap (ID row) of
        None \<Rightarrow> []
      | Some m \<Rightarrow> map SqlExec (reverseStatements m)) @ [SqlDelete (ID row)]"

definition rollbackCalls :: "(string \<rightharpoonup> Migration) \<Rightarrow> MigrationStatus list \<Rightarrow> call list" where
  "rollbackCalls migrationMap rows = concat (map (downCalls migrationMap) rows)"

lemma txRun_executeQueriesUp:
  "txRun drv (map SqlExec (filter (\<lambda>query. TrimSpace query \<noteq> []) qs)) d
     (executeQueriesUp drv qs d)"
proof (induction qs arbitrary: d)
  case Nil
  show ?case by (simp add: txRun_Nil)
next
  case (Cons q qs)
  show ?case
  proof (cases "TrimSpace q = []")
    case True
    then show ?thesis
      using Cons [of d] by simp
  next
    case False
    have "txRun drv ([SqlExec q] @ map SqlExec (filter (\<lambda>query. TrimSpace query \<noteq> []) qs)) d
            (case ExecContext drv (SqlExec q) d of
               (Some err, d1) \<Rightarrow> (Some (Join ErrFailedToExecuteQuery err), d1)
             | (None, d1) \<Rightarrow> executeQueriesUp drv qs d1)"
      by (rule txRun_step) (rule txRun_ExecContext, rule Cons)
    then show ?thesis
      using False by simp
  qed
qed

lemma txRun_executeMigrationUp:
  "txRun drv (upCalls batch m) d (executeMigrationUp drv m batch d)"
proof -
  have "txRun drv (map SqlExec (forwardStatements m) @
                   [SqlInsert (Migration_ID m) (Migration_Description m) batch]) d
          (case executeQueriesUp drv (Migration_Up m) d of
             (Some err, d1) \<Rightarrow> (Some err, d1)
           | (None, d1) \<Rightarrow>
               ExecContext drv
                 (SqlInsert (Migration_ID m) (Migration_Description m) batch) d1)"
    unfolding forwardStatements_def
    by (rule txRun_step) (rule txRun_executeQueriesUp, rule txRun_ExecContext)
  then show ?thesis
    by (simp add: executeMigrationUp_def upCalls_def)
qed

lemma txRun_executeMigrations:
  "txRun drv (batchCalls batch ms) d (executeMigrations drv ms batch d)"
proof (induction ms arbitrary: d)
  case Nil
  show ?case by (simp add: batchCalls_def txRun_Nil)
next
  case (Cons m ms)
  have "txRun drv (upCalls batch m @ batchCalls batch ms) d
          (case executeMigrationUp drv m batch d of
             (Some err, d1) \<Rightarrow> (Some (Join ErrMigrationFailed err), d1)
           | (None, d1) \<Rightarrow> executeMigrations drv ms batch d1)"
    by (rule txRun_step) (rule txRun_executeMigrationUp, rule Cons)
  then show ?case
    by (simp add: batchCalls_def)
qed

lemma txRun_executeQueriesDown:
  "txRun drv
     (map SqlExec
        (filter (\<lambda>query. TrimSpace query \<noteq> [] \<and> \<not> HasPrefix (TrimSpace query) ''--'') qs))
     d (executeQueriesDown drv qs d)"
proof (induction qs arbitrary: d)
  case Nil
  show ?case by (simp add: txRun_Nil)
next
  case (Cons q qs)
  let ?keep = "\<lambda>query. TrimSpace query \<noteq> [] \<and> \<not> HasPrefix (TrimSpace query) ''--''"
  show ?case
  proof (cases "TrimSpace q = [] \<or> HasPrefix (TrimSpace q) ''--''")
    case True
    then show ?thesis
      using Cons [of d] by (auto simp: Let_def)
  next
    case False
    have "txRun drv ([SqlExec q] @ map SqlExec (filter ?keep qs)) d
            (case ExecContext drv (SqlExec q) d of
               (Some err, d1) \<Rightarrow> (Some (Join ErrMigrationFailed err), d1)
             | (None, d1) \<Rightarrow> executeQueriesDown drv qs d1)"
      by (rule txRun_step) (rule txRun_ExecContext, rule Cons)
    then show ?thesis
      using False by (simp add: Let_def)
  qed
qed

lemma txRun_rollbackSingleMigration:
  "txRun drv (downCalls migrationMap row) d (rollbackSingleMigration drv row migrationMap d)"
proof -
  let ?stmts = "case migrationMap (ID row) of
                  None \<Rightarrow> [] | Some m \<Rightarrow> map SqlExec (reverseStatements m)"
  let ?body = "case migrationMap (ID row) of
                 Some mig \<Rightarrow> executeQueriesDown drv (Migration_Down mig) d
               | None \<Rightarrow> (None, d)"
  have body: "txRun drv ?stmts d ?body"
    by (cases "migrationMap (ID row)")
      (simp_all add: txRun_Nil reverseStatements_def txRun_executeQueriesDown)
  have del: "txRun drv [SqlDelete (ID row)] d1
               (case deleteMigrationRecord drv (ID row) d1 of
                  (Some err, d2) \<Rightarrow> (Some (Join ErrMigrationFailed err), d2)
                | (None, d2) \<Rightarrow> (None, d2))" for d1
    using txRun_ExecContext [of drv "SqlDelete (ID row)" d1]
    by (cases "ExecContext drv (SqlDelete (ID row)) d1")
      (auto simp: deleteMigrationRecord_def intro: txRun_error split: option.splits)
  have "txRun drv (?stmts @ [SqlDelete (ID row)]) d
          (case ?body of
             (Some err, d1) \<Rightarrow> (Some err, d1)
           | (None, d1) \<Rightarrow>
               (case deleteMigrationRecord drv (ID row) d1 of
                  (Some err, d2) \<Rightarrow> (Some (Join ErrMigrationFailed err), d2)
                | (None, d2) \<Rightarrow> (None, d2)))"
    by (rule txRun_step) (rule body, rule del)
  then show ?thesis
    by (simp add: rollbackSingleMigration_def downCalls_def)
qed

lemma txRun_rollbackMigrations:
  "txRun drv (rollbackCalls migrationMap rows) d (rollbackMigrations drv rows migrationMap d)"
proof (induction rows arbitrary: d)
  case Nil
  show ?case by (simp add: rollbackCalls_def txRun_Nil)
next
  case (Cons row rows)
  have "txRun drv (downCalls migrationMap row @ rollbackCalls migrationMap rows) d
          (case rollbackSingleMigration drv row migrationMap d of
             (Some err, d1) \<Rightarrow> (Some err, d1)
           | (None, d1) \<Rightarrow> rollbackMigrations drv rows migrationMap d1)"
    by (rule txRun_step) (rule txRun_rollbackSingleMigration, rule Cons)
  then show ?case
    by (simp add: rollbackCalls_def)
qed

lemma transaction_cases:
  assumes body: "\<And>d1. txRun drv plan d1 (body d1)"
    and run: "(case BeginTx drv d of
                 (Some err, d1) \<Rightarrow> (Some (Join ErrFailedToBeginTransaction err), d1)
               | (None, d1) \<Rightarrow>
                   (case body d1 of
                      (Some err, d2) \<Rightarrow> (Some err, Rollback d2)
                    | (None, d2) \<Rightarrow>
                        (case Commit drv d2 of
                           (Some err, d3) \<Rightarrow> (Some err, Rollback d3)
                         | (None, d3) \<Rightarrow> (None, d3)))) = (res, d')"
  obtains
    (beginFails) msg where "fault drv SqlBegin = Some msg"
      "res = Some (Join ErrFailedToBeginTransaction (DriverError msg))"
      "d' = d\<lparr>calls := calls d @ [SqlBegin]\<rparr>"
  | (bodyFails) err xs where "res = Some err" "prefix xs plan"
      "d' = d\<lparr>tx := None, calls := calls d @ [SqlBegin] @ xs @ [SqlRollback]\<rparr>"
  | (commitFails) err where "res = Some err"
      "d' = d\<lparr>tx := None, calls := calls d @ [SqlBegin] @ plan @ [SqlCommit, SqlRollback]\<rparr>"
  | (success) w' where "res = None" "runCalls drv plan (committed d) = Inr w'"
      "d' = d\<lparr>committed := w', tx := None, calls := calls d @ [SqlBegin] @ plan @ [SqlCommit]\<rparr>"
proof (cases "fault drv SqlBegin")
  case (Some msg)
  with run have "res = Some (Join ErrFailedToBeginTransaction (DriverError msg))"
    and "d' = d\<lparr>calls := calls d @ [SqlBegin]\<rparr>"
    by (auto simp: BeginTx_def send_def)
  with Some show ?thesis
    by (rule beginFails)
next
  case None
  define d1 where "d1 = (send SqlBegin d)\<lparr>tx := Some (committed d)\<rparr>"
  obtain r2 d2 where b: "body d1 = (r2, d2)"
    by (cases "body d1")
  from body [of d1] b obtain xs where c2: "committed d2 = committed d"
    and k2: "calls d2 = calls d @ [SqlBegin] @ xs" and pre: "prefix xs plan"
    and ok: "r2 = None \<longrightarrow> xs = plan \<and>
       rel_option (\<lambda>w w'. runCalls drv plan w = Inr w') (Some (committed d)) (tx d2)"
    by (auto simp: txRun_def d1_def send_def)
  from run None b have run2:
    "(case r2 of
        Some err \<Rightarrow> (Some err, Rollback d2)
      | None \<Rightarrow>
          (case Commit drv d2 of
             (Some err, d3) \<Rightarrow> (Some err, Rollback d3)
           | (None, d3) \<Rightarrow> (None, d3))) = (res, d')"
    by (simp add: BeginTx_def d1_def)
  show ?thesis
  proof (cases r2)
    case (Some err)
    with run2 have "res = Some err" and "d' = Rollback d2"
      by simp_all
    moreover have "Rollback d2 = d\<lparr>tx := None, calls := calls d @ [SqlBegin] @ xs @ [SqlRollback]\<rparr>"
      using c2 k2 by (simp add: Rollback_def send_def)
    ultimately show ?thesis
      using pre by (intro bodyFails [of err xs]) simp_all
  next
    case r2: None
    with ok obtain w' where xs: "xs = plan" and w': "tx d2 = Some w'"
      "runCalls drv plan (committed d) = Inr w'"
      by (cases "tx d2") auto
    show ?thesis
    proof (cases "fault drv SqlCommit")
      case (Some msg)
      with run2 r2 have "res = Some (DriverError msg)"
        and "d' = Rollback ((send SqlCommit d2)\<lparr>tx := None\<rparr>)"
        by (simp_all add: Commit_def)
      moreover have "Rollback ((send SqlCommit d2)\<lparr>tx := None\<rparr>) =
          d\<lparr>tx := None, calls := calls d @ [SqlBegin] @ plan @ [SqlCommit, SqlRollback]\<rparr>"
        using c2 k2 xs by (simp add: Rollback_def send_def)
      ultimately show ?thesis
        by (intro commitFails [of "DriverError msg"]) simp_all
    next
      case None
      with run2 r2 w' have "res = None"
        and "d' = (send SqlCommit d2)\<lparr>committed := w', tx := None\<rparr>"
        by (simp_all add: Commit_def)
      moreover have "(send SqlCommit d2)\<lparr>committed := w', tx := None\<rparr> =
          d\<lparr>committed := w', tx := None, calls := calls d @ [SqlBegin] @ plan @ [SqlCommit]\<rparr>"
        using c2 k2 xs by (simp add: send_def)
      ultimately show ?thesis
        using w'(2) by (intro success [of w']) simp_all
    qed
  qed
qed

lemma executeMigrationBatch_cases:
  assumes "executeMigrationBatch drv ms batch d = (res, d')"
  obtains
    (beginFails) msg where "fault drv SqlBegin = Some msg"
      "res = Some (Join ErrFailedToBeginTransaction (DriverError msg))"
      "d' = d\<lparr>calls := calls d @ [SqlBegin]\<rparr>"
  | (bodyFails) err xs where "res = Some err" "prefix xs (batchCalls batch ms)"
      "d' = d\<lparr>tx := None, calls := calls d @ [SqlBegin] @ xs @ [SqlRollback]\<rparr>"
  | (commitFails) err where "res = Some err"
      "d' = d\<lparr>tx := None,
              calls := calls d @ [SqlBegin] @ batchCalls batch ms @ [SqlCommit, SqlRollback]\<rparr>"
  | (success) w' where "res = None" "runCalls drv (batchCalls batch ms) (committed d) = Inr w'"
      "d' = d\<lparr>committed := w', tx := None,
              calls := calls d @ [SqlBegin] @ batchCalls batch ms @ [SqlCommit]\<rparr>"
  using assms unfolding executeMigrationBatch_def
  by (rule transaction_cases [of drv "batchCalls batch ms" "executeMigrations drv ms batch",
        OF txRun_executeMigrations]) blast+

lemma executeRollback_cases:
  assumes "executeRollback drv rows migrationMap d = (res, d')"
  obtains
    (beginFails) msg where "fault drv SqlBegin = Some msg"
      "res = Some (Join ErrFailedToBeginTransaction (DriverError msg))"
      "d' = d\<lparr>calls := calls d @ [SqlBegin]\<rparr>"
  | (bodyFails) err xs where "res = Some err" "prefix xs (rollbackCalls migrationMap rows)"
      "d' = d\<lparr>tx := None, calls := calls d @ [SqlBegin] @ xs @ [SqlRollback]\<rparr>"
  | (commitFails) err where "res = Some err"
      "d' = d\<lparr>tx := None,
              calls := calls d @ [SqlBegin] @ rollbackCalls migrationMap rows
                       @ [SqlCommit, SqlRollback]\<rparr>"
  | (success) w' where "res = None"
      "runCalls drv (rollbackCalls migrationMap rows) (committed d) = Inr w'"
      "d' = d\<lparr>committed := w', tx := None,
              calls := calls d @ [SqlBegin] @ rollbackCalls migrationMap rows @ [SqlCommit]\<rparr>"
  using assms unfolding executeRollback_def
  by (rule transaction_cases [of drv "rollbackCalls migrationMap rows"
        "\<lambda>d1. rollbackMigrations drv rows migrationMap d1", OF txRun_rollbackMigrations]) blast+

section \<open>Reading the Ledger, and the cases of \<open>Up\<close>\<close>


text \<open>
  The Ledger can be read under a driver when neither the bootstrap nor the query nor
  the reading of the result set fails.
\<close>

definition readable :: "'s driver \<Rightarrow> 's store \<Rightarrow> bool" where
  "readable drv st \<longleftrightarrow>
     fault drv SqlCreateTable = None \<and> fault drv SqlCreateIndex = None \<and>
     fault drv SqlSelect = None \<and> (ledger st = [] \<or> fault drv SqlScan = None) \<and>
     fault drv SqlRowsErr = None"

definition afterRead :: "'s sqlDB \<Rightarrow> 's sqlDB" where
  "afterRead d = d\<lparr>calls := calls d @ [SqlCreateTable, SqlCreateIndex, SqlSelect]\<rparr>"

text \<open>
  The words of the specification for step 4 of Apply: the registered candidates sorted
  ascending by identifier, without those whose identifier the Ledger holds.
\<close>

definition sortedByID :: "'s driver \<Rightarrow> Migration list \<Rightarrow> Migration list" where
  "sortedByID drv ms = sortSlice (sortChoice drv) (\<lambda>a b. Migration_ID a < Migration_ID b) ms"

definition pending :: "'s driver \<Rightarrow> 's store \<Rightarrow> Migration list \<Rightarrow> Migration list" where
  "pending drv st ms =
     filter (\<lambda>m. Migration_ID m \<notin> ID ` set (ledger st)) (sortedByID drv ms)"

definition nextBatch :: "'s store \<Rightarrow> int" where
  "nextBatch st = getNextBatchNumber (selectLedger st)"

definition ledgerRow :: "'s driver \<Rightarrow> int \<Rightarrow> Migration \<Rightarrow> MigrationStatus" where
  "ledgerRow drv batch m =
     \<lparr>ID = Migration_ID m, Description = Migration_Description m, AppliedAt = now drv,
      Batch = batch\<rparr>"

fun runStatements :: "(string \<Rightarrow> 's \<Rightarrow> string + 's) \<Rightarrow> string list \<Rightarrow> 's \<Rightarrow> string + 's" where
  "runStatements f [] s = Inr s"
| "runStatements f (query # queries) s =
     (case f query s of Inl msg \<Rightarrow> Inl msg | Inr s' \<Rightarrow> runStatements f queries s')"

lemma getAppliedMigrations_cases:
  obtains
    (fails) err xs where "\<not> readable drv (committed d)"
      "getAppliedMigrations drv d = (Inl err, d\<lparr>calls := calls d @ xs\<rparr>)"
      "prefix xs [SqlCreateTable, SqlCreateIndex, SqlSelect]"
  | (reads) "readable drv (committed d)"
      "getAppliedMigrations drv d = (Inr (selectLedger (committed d)), afterRead d)"
proof (cases "readable drv (committed d)")
  case True
  then have "getAppliedMigrations drv d = (Inr (selectLedger (committed d)), afterRead d)"
    by (auto simp: readable_def getAppliedMigrations_def createMigrationTable_def send_def
        afterRead_def Let_def selectLedger_Nil_iff)
  with True show ?thesis
    by (rule reads)
next
  case False
  have "\<exists>err xs. getAppliedMigrations drv d = (Inl err, d\<lparr>calls := calls d @ xs\<rparr>) \<and>
          prefix xs [SqlCreateTable, SqlCreateIndex, SqlSelect]"
  proof (cases "fault drv SqlCreateTable")
    case (Some msg)
    then have "getAppliedMigrations drv d =
        (Inl (Join ErrFailedToCreateSchemaMigrationsTable (DriverError msg)),
         d\<lparr>calls := calls d @ [SqlCreateTable]\<rparr>)"
      by (simp add: getAppliedMigrations_def createMigrationTable_def send_def)
    then show ?thesis
      by (intro exI [of _ "[SqlCreateTable]"] exI conjI) simp_all
  next
    case ct: None
    show ?thesis
    proof (cases "fault drv SqlCreateIndex")
      case (Some msg)
      then have "getAppliedMigrations drv d =
          (Inl (Join ErrFailedToCreateSchemaMigrationsIndex (DriverError msg)),
           d\<lparr>calls := calls d @ [SqlCreateTable, SqlCreateIndex]\<rparr>)"
        using ct by (simp add: getAppliedMigrations_def createMigrationTable_def send_def)
      then show ?thesis
        by (intro exI [of _ "[SqlCreateTable, SqlCreateIndex]"] exI conjI) simp_all
    next
      case ci: None
      have "\<exists>err. getAppliedMigrations drv d =
          (Inl err, d\<lparr>calls := calls d @ [SqlCreateTable, SqlCreateIndex, SqlSelect]\<rparr>)"
        using False ct ci
        by (auto simp: readable_def getAppliedMigrations_def createMigrationTable_def send_def
            Let_def selectLedger_Nil_iff split: option.splits)
      then show ?thesis
        by (auto intro!: exI [of _ "[SqlCreateTable, SqlCreateIndex, SqlSelect]"])
    qed
  qed
  with False show ?thesis
    using fails by blast
qed

lemma filter_unapplied:
  "filter (\<lambda>m. \<not> lookupBool (buildAppliedMap (selectLedger st)) (Migration_ID m))
     (sortSlice (sortChoice drv) (\<lambda>a b. Migration_ID a < Migration_ID b) ms) =
   pending drv st ms"
  by (simp add: pending_def sortedByID_def lookupBool_buildAppliedMap set_selectLedger)

lemma Up_cases:
  assumes "Up drv r = (res, r')"
  obtains
    (readFails) err xs where "\<not> readable drv (committed (db r))"
      "res = Some (Join ErrFailedToGetAppliedMigrations err)"
      "r' = r\<lparr>db := (db r)\<lparr>calls := calls (db r) @ xs\<rparr>\<rparr>"
      "prefix xs [SqlCreateTable, SqlCreateIndex, SqlSelect]"
  | (nothing) "readable drv (committed (db r))"
      "pending drv (committed (db r)) (migrations r) = []" "res = None"
      "r' = r\<lparr>db := afterRead (db r), migrations := sortedByID drv (migrations r)\<rparr>"
  | (batch) d2 where "readable drv (committed (db r))"
      "pending drv (committed (db r)) (migrations r) \<noteq> []"
      "executeMigrationBatch drv (pending drv (committed (db r)) (migrations r))
         (nextBatch (committed (db r))) (afterRead (db r)) = (res, d2)"
      "r' = r\<lparr>db := d2, migrations := sortedByID drv (migrations r)\<rparr>"
proof (cases drv "db r" rule: getAppliedMigrations_cases)
  case (fails err xs)
  with assms have "res = Some (Join ErrFailedToGetAppliedMigrations err)"
    and "r' = r\<lparr>db := (db r)\<lparr>calls := calls (db r) @ xs\<rparr>\<rparr>"
    by (simp_all add: Up_def)
  with fails(1) show ?thesis
    using fails(3) by (rule readFails)
next
  case reads
  let ?new = "pending drv (committed (db r)) (migrations r)"
  show ?thesis
  proof (cases "?new = []")
    case True
    with assms reads have "res = None"
      and "r' = r\<lparr>db := afterRead (db r), migrations := sortedByID drv (migrations r)\<rparr>"
      by (simp_all add: Up_def Let_def filter_unapplied sortedByID_def)
    with reads(1) True show ?thesis
      by (rule nothing)
  next
    case False
    obtain r2 d2 where run: "executeMigrationBatch drv ?new (nextBatch (committed (db r)))
        (afterRead (db r)) = (r2, d2)"
      by (cases "executeMigrationBatch drv ?new (nextBatch (committed (db r))) (afterRead (db r))")
    have "Up drv r = (r2, r\<lparr>db := d2, migrations := sortedByID drv (migrations r)\<rparr>)"
      using reads False run [unfolded nextBatch_def]
      by (simp add: Up_def Let_def filter_unapplied sortedByID_def)
    with assms have "r2 = res"
      and "r' = r\<lparr>db := d2, migrations := sortedByID drv (migrations r)\<rparr>"
      by simp_all
    with reads(1) False run show ?thesis
      by (intro batch [of d2]) simp_all
  qed
qed

section \<open>Atomicity of \<open>Up\<close>\<close>


lemma runStatements_append:
  "runStatements f (qs @ qs') s =
     (case runStatements f qs s of Inl msg \<Rightarrow> Inl msg | Inr s' \<Rightarrow> runStatements f qs' s')"
  by (induction qs arbitrary: s) (simp_all split: sum.splits)

lemma runCalls_statements:
  "runCalls drv (map SqlExec qs) w =
     (case runStatements (sem drv) qs (schema w) of
        Inl msg \<Rightarrow> Inl msg
      | Inr s' \<Rightarrow> Inr (w\<lparr>schema := s'\<rparr>))"
  by (induction qs arbitrary: w) (simp_all split: sum.splits)

lemma runCalls_upCalls:
  assumes "runCalls drv (upCalls batch m) w = Inr w'"
  shows "ledger w' = ledger w @ [ledgerRow drv batch m] \<and>
         Migration_ID m \<notin> ID ` set (ledger w) \<and>
         runStatements (sem drv) (forwardStatements m) (schema w) = Inr (schema w')"
proof (cases "runStatements (sem drv) (forwardStatements m) (schema w)")
  case (Inl msg)
  with assms show ?thesis
    by (simp add: upCalls_def runCalls_append runCalls_statements)
next
  case (Inr s')
  with assms show ?thesis
    by (auto simp: upCalls_def runCalls_append runCalls_statements ledgerRow_def
        split: if_splits)
qed

lemma runCalls_batchCalls:
  assumes "runCalls drv (batchCalls batch ms) w = Inr w'"
  shows "ledger w' = ledger w @ map (ledgerRow drv batch) ms \<and>
         runStatements (sem drv) (concat (map forwardStatements ms)) (schema w) = Inr (schema w')"
  using assms
proof (induction ms arbitrary: w)
  case Nil
  then show ?case by (simp add: batchCalls_def)
next
  case (Cons m ms)
  from Cons.prems obtain w1 where w1: "runCalls drv (upCalls batch m) w = Inr w1"
    and rest: "runCalls drv (batchCalls batch ms) w1 = Inr w'"
    by (cases "runCalls drv (upCalls batch m) w") (simp_all add: batchCalls_def runCalls_append)
  from runCalls_upCalls [OF w1] Cons.IH [OF rest] show ?case
    by (simp add: runStatements_append)
qed

lemma new_calls_append: "drop (length xs) (xs @ ys) = ys"
  by simp

lemma Up_success_effect:
  assumes "Up drv r = (None, r')"
  shows "ledger (committed (db r')) =
           ledger (committed (db r)) @
           map (ledgerRow drv (nextBatch (committed (db r))))
             (pending drv (committed (db r)) (migrations r)) \<and>
         runStatements (sem drv)
           (concat (map forwardStatements (pending drv (committed (db r)) (migrations r))))
           (schema (committed (db r))) = Inr (schema (committed (db r')))"
  using assms
proof (cases rule: Up_cases)
  case (readFails err xs)
  then show ?thesis by simp
next
  case nothing
  then show ?thesis by (simp add: afterRead_def)
next
  case (batch d2)
  from batch(3) show ?thesis
  proof (cases rule: executeMigrationBatch_cases)
    case (success w')
    from runCalls_batchCalls [OF success(2)] success(3) batch(4) show ?thesis
      by (simp add: afterRead_def)
  qed simp_all
qed

section \<open>A concrete store and three migrations\<close>


text \<open>A store for the examples: its schema is the list of the statements it has run,
  and it rejects the statement \<open>BOOM\<close>; the runtime's sort keeps ties in slice order.\<close>

definition demoDriver :: "string list driver" where
  "demoDriver =
     \<lparr>sem = (\<lambda>query s. if query = ''BOOM'' then Inl ''syntax error'' else Inr (s @ [query])),
      fault = (\<lambda>c. None), now = 7, sortChoice = (\<lambda>n lt. [])\<rparr>"

definition emptyDB :: "string list sqlDB" where
  "emptyDB = \<lparr>committed = \<lparr>ledger = [], schema = []\<rparr>, tx = None, calls = []\<rparr>"

definition migA :: Migration where
  "migA = \<lparr>id' = ''a'', description = ''A'', upQueries = [''CREATE TABLE t(id INT)'', ''  ''],
           downQueries = [''DROP TABLE t'']\<rparr>"

definition migB :: Migration where
  "migB = \<lparr>id' = ''b'', description = ''B'', upQueries = [''BOOM''], downQueries = []\<rparr>"

definition migC :: Migration where
  "migC = \<lparr>id' = ''c'', description = ''C'', upQueries = [''ALTER TABLE t ADD COLUMN c TEXT''],
           downQueries = ['' -- no way back'', ''ALTER TABLE t DROP COLUMN c'']\<rparr>"

lemmas engine_eval =
  Up_def Down_def getAppliedMigrations_def createMigrationTable_def send_def Let_def
  selectLedger_def sortSlice_def arrange_def insertionSort_def buildAppliedMap_def lookupBool_def getNextBatchNumber_def
  wrapInt_def executeMigrationBatch_def executeMigrationUp_def BeginTx_def ExecContext_def
  Commit_def Rollback_def buildMigrationMap_def buildRollbackList_def executeRollback_def
  rollbackSingleMigration_def deleteMigrationRecord_def HasPrefix_def New_def Register_def

lemma demo_Up_fails: "Up demoDriver (Register [migC, migB, migA] (New emptyDB)) =
  (Some (Join ErrMigrationFailed (Join ErrFailedToExecuteQuery (DriverError ''syntax error''))),
   \<lparr>db = \<lparr>committed = \<lparr>ledger = [], schema = []\<rparr>, tx = None,
          calls = [SqlCreateTable, SqlCreateIndex, SqlSelect, SqlBegin,
                   SqlExec ''CREATE TABLE t(id INT)'', SqlInsert ''a'' ''A'' 1,
                   SqlExec ''BOOM'', SqlRollback]\<rparr>,
     migrations = [migA, migB, migC]\<rparr>)"
  by (simp add: engine_eval ws_eval demoDriver_def emptyDB_def migA_def migB_def migC_def)

lemma demo_Up_succeeds: "Up demoDriver (Register [migC, migA] (New emptyDB)) =
  (None,
   \<lparr>db = \<lparr>committed = \<lparr>ledger = [\<lparr>ID = ''a'', Description = ''A'', AppliedAt = 7, Batch = 1\<rparr>,
                                 \<lparr>ID = ''c'', Description = ''C'', AppliedAt = 7, Batch = 1\<rparr>],
                        schema = [''CREATE TABLE t(id INT)'', ''ALTER TABLE t ADD COLUMN c TEXT'']\<rparr>,
          tx = None,
          calls = [SqlCreateTable, SqlCreateIndex, SqlSelect, SqlBegin,
                   SqlExec ''CREATE TABLE t(id INT)'', SqlInsert ''a'' ''A'' 1,
                   SqlExec ''ALTER TABLE t ADD COLUMN c TEXT'', SqlInsert ''c'' ''C'' 1,
                   SqlCommit]\<rparr>,
     migrations = [migA, migC]\<rparr>)"
  by (simp add: engine_eval ws_eval demoDriver_def emptyDB_def migA_def migB_def migC_def)

text \<open>
  C1. \<open>Up\<close> is atomic at batch granularity. If \<open>Up\<close> returns an error, the durable
  state of the store (Ledger rows and schema) is the one before the call; if the error
  came after the transaction was begun, the transaction has been rolled back. If \<open>Up\<close>
  returns no error, the durable Ledger is the former one followed by one row for each
  pending migration, in order, and the durable schema is the result of every forward
  statement of every pending migration.
\<close>

theorem Up_atomic:
  assumes "Up drv r = (res, r')"
  shows "(res \<noteq> None \<longrightarrow> committed (db r') = committed (db r)) \<and>
         (res \<noteq> None \<and> readable drv (committed (db r)) \<and> fault drv SqlBegin = None \<longrightarrow>
            last (calls (db r')) = SqlRollback \<and> tx (db r') = None) \<and>
         (res = None \<longrightarrow>
            ledger (committed (db r')) =
              ledger (committed (db r)) @
              map (ledgerRow drv (nextBatch (committed (db r))))
                (pending drv (committed (db r)) (migrations r)) \<and>
            runStatements (sem drv)
              (concat (map forwardStatements (pending drv (committed (db r)) (migrations r))))
              (schema (committed (db r))) = Inr (schema (committed (db r'))))"
  using assms
proof (cases rule: Up_cases)
  case (readFails err xs)
  then show ?thesis by simp
next
  case nothing
  then show ?thesis by (simp add: afterRead_def)
next
  case (batch d2)
  from batch(3) show ?thesis
  proof (cases rule: executeMigrationBatch_cases)
    case (beginFails msg)
    then show ?thesis
      using batch(4) by (simp add: afterRead_def)
  next
    case (bodyFails err xs)
    then show ?thesis
      using batch(4) by (simp add: afterRead_def)
  next
    case (commitFails err)
    then show ?thesis
      using batch(4) by (simp add: afterRead_def)
  next
    case (success w')
    from runCalls_batchCalls [OF success(2)] success(1,3) batch(4) show ?thesis
      by (simp add: afterRead_def)
  qed
qed

theorem Up_atomic_witness:
  "(\<exists>err r'. Up demoDriver (Register [migC, migB, migA] (New emptyDB)) = (Some err, r') \<and>
      committed (db r') = \<lparr>ledger = [], schema = []\<rparr> \<and>
      last (calls (db r')) = SqlRollback \<and> tx (db r') = None) \<and>
   (\<exists>r'. Up demoDriver (Register [migC, migA] (New emptyDB)) = (None, r') \<and>
      ledger (committed (db r')) =
        [\<lparr>ID = ''a'', Description = ''A'', AppliedAt = 7, Batch = 1\<rparr>,
         \<lparr>ID = ''c'', Description = ''C'', AppliedAt = 7, Batch = 1\<rparr>] \<and>
      schema (committed (db r')) =
        [''CREATE TABLE t(id INT)'', ''ALTER TABLE t ADD COLUMN c TEXT''])"
proof -
  have canRead: "readable demoDriver \<lparr>ledger = [], schema = []\<rparr>"
    and noFault: "fault demoDriver SqlBegin = None"
    by (simp_all add: readable_def demoDriver_def)
  have start: "committed (db (Register ms (New emptyDB))) = \<lparr>ledger = [], schema = []\<rparr>" for ms
    by (simp add: Register_def New_def emptyDB_def)
  have news: "pending demoDriver \<lparr>ledger = [], schema = []\<rparr> (migrations (Register [migC, migA] (New emptyDB)))
      = [migA, migC]"
    by (simp add: pending_def sortedByID_def sortSlice_def arrange_def insertionSort_def
        demoDriver_def Register_def New_def migA_def migC_def)
  have batch: "nextBatch \<lparr>ledger = [], schema = ([]::string list)\<rparr> = 1"
    by (simp add: nextBatch_def selectLedger_def sortSlice_def arrange_def insertionSort_def getNextBatchNumber_def wrapInt_def)
  from Up_atomic [OF demo_Up_fails] canRead noFault have failed:
    "committed (db \<lparr>db = \<lparr>committed = \<lparr>ledger = [], schema = []\<rparr>, tx = None,
          calls = [SqlCreateTable, SqlCreateIndex, SqlSelect, SqlBegin,
                   SqlExec ''CREATE TABLE t(id INT)'', SqlInsert ''a'' ''A'' 1,
                   SqlExec ''BOOM'', SqlRollback]\<rparr>,
       migrations = [migA, migB, migC]\<rparr>) = \<lparr>ledger = [], schema = []\<rparr> \<and>
     last (calls (db \<lparr>db = \<lparr>committed = \<lparr>ledger = [], schema = []\<rparr>, tx = None,
          calls = [SqlCreateTable, SqlCreateIndex, SqlSelect, SqlBegin,
                   SqlExec ''CREATE TABLE t(id INT)'', SqlInsert ''a'' ''A'' 1,
                   SqlExec ''BOOM'', SqlRollback]\<rparr>,
       migrations = [migA, migB, migC]\<rparr>)) = SqlRollback"
    by (simp only: start) simp
  from Up_atomic [OF demo_Up_succeeds] have ok:
    "ledger (committed (db \<lparr>db = \<lparr>committed = \<lparr>ledger = [\<lparr>ID = ''a'', Description = ''A'', AppliedAt = 7, Batch = 1\<rparr>,
                                 \<lparr>ID = ''c'', Description = ''C'', AppliedAt = 7, Batch = 1\<rparr>],
                        schema = [''CREATE TABLE t(id INT)'', ''ALTER TABLE t ADD COLUMN c TEXT'']\<rparr>,
          tx = None,
          calls = [SqlCreateTable, SqlCreateIndex, SqlSelect, SqlBegin,
                   SqlExec ''CREATE TABLE t(id INT)'', SqlInsert ''a'' ''A'' 1,
                   SqlExec ''ALTER TABLE t ADD COLUMN c TEXT'', SqlInsert ''c'' ''C'' 1,
                   SqlCommit]\<rparr>,
     migrations = [migA, migC]\<rparr>)) =
      [] @ map (ledgerRow demoDriver 1) [migA, migC]"
    by (simp only: start news batch) simp
  show ?thesis
    using failed ok demo_Up_fails demo_Up_succeeds
    by (simp add: ledgerRow_def migA_def migC_def demoDriver_def)
qed

section \<open>Idempotence of \<open>Up\<close>\<close>


lemma set_sortedByID: "set (sortedByID drv ms) = set ms"
  by (simp add: sortedByID_def set_sortSlice)

lemma mset_sortedByID: "mset (sortedByID drv ms) = mset ms"
  by (simp add: sortedByID_def mset_sortSlice)

lemma sorted_ids_sortedByID: "sorted (map Migration_ID (sortedByID drv ms))"
  unfolding sortedByID_def by (rule sorted_ids_sortSlice)

lemma sortedByID_ids_of_sorted:
  assumes "sorted (map Migration_ID ms)"
  shows "map Migration_ID (sortedByID drv ms) = map Migration_ID ms"
proof -
  have "mset (map Migration_ID (sortedByID drv ms)) = mset (map Migration_ID ms)"
    by (simp only: mset_map mset_sortedByID)
  then have a: "sort (map Migration_ID ms) = map Migration_ID (sortedByID drv ms)"
    using sorted_ids_sortedByID by (rule properties_for_sort)
  have b: "sort (map Migration_ID ms) = map Migration_ID ms"
    using refl assms by (rule properties_for_sort)
  show ?thesis
    by (rule trans [OF a [symmetric] b])
qed

lemma sortedByID_of_sorted_distinct:
  assumes "sorted (map Migration_ID ms)" and "distinct (map Migration_ID ms)"
  shows "sortedByID drv ms = ms"
proof -
  from assms(2) have "inj_on Migration_ID (set ms)"
    by (simp add: distinct_map)
  then have "inj_on Migration_ID (set (sortedByID drv ms) \<union> set ms)"
    by (simp add: set_sortedByID)
  then show ?thesis
    using sortedByID_ids_of_sorted [OF assms(1), of drv] by (simp only: inj_on_map_eq_map)
qed

lemma pending_Nil_iff:
  "pending drv st ms = [] \<longleftrightarrow> (\<forall>m\<in>set ms. Migration_ID m \<in> ID ` set (ledger st))"
  by (auto simp: pending_def filter_empty_conv set_sortedByID)

lemma set_pending:
  "set (pending drv st ms) = {m \<in> set ms. Migration_ID m \<notin> ID ` set (ledger st)}"
  by (auto simp: pending_def set_sortedByID)

lemma Up_nothing_pending:
  assumes "readable drv (committed (db r))"
    and "\<forall>m\<in>set (migrations r). Migration_ID m \<in> ID ` set (ledger (committed (db r)))"
  shows "Up drv r =
           (None, r\<lparr>db := (db r)\<lparr>calls := calls (db r) @ [SqlCreateTable, SqlCreateIndex, SqlSelect]\<rparr>,
                    migrations := sortedByID drv (migrations r)\<rparr>)"
proof -
  obtain res r' where run: "Up drv r = (res, r')"
    by (cases "Up drv r")
  from run show ?thesis
  proof (cases rule: Up_cases)
    case (readFails err xs)
    with assms(1) show ?thesis by simp
  next
    case nothing
    with run show ?thesis by (simp add: afterRead_def)
  next
    case (batch d2)
    with assms(2) show ?thesis by (simp add: pending_Nil_iff)
  qed
qed

lemma Up_success_all_applied:
  assumes "Up drv r = (None, r')"
  shows "migrations r' = sortedByID drv (migrations r) \<and>
         (\<forall>m\<in>set (migrations r). Migration_ID m \<in> ID ` set (ledger (committed (db r'))))"
  using assms
proof (cases rule: Up_cases)
  case (readFails err xs)
  then show ?thesis by simp
next
  case nothing
  then show ?thesis by (simp add: pending_Nil_iff afterRead_def)
next
  case (batch d2)
  let ?st = "committed (db r)"
  from Up_success_effect [OF assms]
  have led: "ledger (committed (db r')) =
      ledger ?st @ map (ledgerRow drv (nextBatch ?st)) (pending drv ?st (migrations r))"
    by simp
  have "Migration_ID m \<in> ID ` set (ledger (committed (db r')))" if "m \<in> set (migrations r)" for m
  proof (cases "Migration_ID m \<in> ID ` set (ledger ?st)")
    case True
    then show ?thesis by (auto simp: led)
  next
    case False
    with that have "m \<in> set (pending drv ?st (migrations r))"
      by (simp add: set_pending)
    then have "ID (ledgerRow drv (nextBatch ?st) m) \<in>
        ID ` set (map (ledgerRow drv (nextBatch ?st)) (pending drv ?st (migrations r)))"
      by (intro imageI) simp
    then show ?thesis
      by (simp add: led ledgerRow_def image_Un)
  qed
  with batch(4) show ?thesis by simp
qed

text \<open>
  C2. \<open>Up\<close> is idempotent. Whenever the Ledger can be read and holds every registered
  identifier, \<open>Up\<close> returns no error and does nothing but the bootstrap and the query:
  no transaction is begun, no row is inserted, the store is as before. In particular,
  after a first \<open>Up\<close> has returned no error, a second \<open>Up\<close> on the resulting Migrator
  (the same registered set) that can read the Ledger is such a no-op. Each call sorts the
  registered slice in place: the second call leaves it a permutation with the same
  sequence of identifiers, and the very slice when the registered identifiers are
  distinct.
\<close>

theorem Up_idempotent:
  "(readable drv (committed (db r)) \<and>
    (\<forall>m\<in>set (migrations r). Migration_ID m \<in> ID ` set (ledger (committed (db r)))) \<longrightarrow>
      Up drv r =
        (None, r\<lparr>db := (db r)\<lparr>calls := calls (db r) @ [SqlCreateTable, SqlCreateIndex, SqlSelect]\<rparr>,
                 migrations := sortedByID drv (migrations r)\<rparr>)) \<and>
   (Up drv1 r = (None, r1) \<and> readable drv2 (committed (db r1)) \<longrightarrow>
      Up drv2 r1 =
        (None, r1\<lparr>db := (db r1)\<lparr>calls := calls (db r1) @ [SqlCreateTable, SqlCreateIndex, SqlSelect]\<rparr>,
                  migrations := sortedByID drv2 (migrations r1)\<rparr>) \<and>
      mset (sortedByID drv2 (migrations r1)) = mset (migrations r1) \<and>
      map Migration_ID (sortedByID drv2 (migrations r1)) = map Migration_ID (migrations r1) \<and>
      (distinct (map Migration_ID (migrations r)) \<longrightarrow>
         Up drv2 r1 =
           (None, r1\<lparr>db := (db r1)\<lparr>calls := calls (db r1) @
                                       [SqlCreateTable, SqlCreateIndex, SqlSelect]\<rparr>\<rparr>)))"
proof (rule conjI; rule impI)
  assume "readable drv (committed (db r)) \<and>
    (\<forall>m\<in>set (migrations r). Migration_ID m \<in> ID ` set (ledger (committed (db r))))"
  then show "Up drv r =
        (None, r\<lparr>db := (db r)\<lparr>calls := calls (db r) @ [SqlCreateTable, SqlCreateIndex, SqlSelect]\<rparr>,
                 migrations := sortedByID drv (migrations r)\<rparr>)"
    by (intro Up_nothing_pending) simp_all
next
  assume a: "Up drv1 r = (None, r1) \<and> readable drv2 (committed (db r1))"
  then have first: "Up drv1 r = (None, r1)" and canRead: "readable drv2 (committed (db r1))"
    by simp_all
  from Up_success_all_applied [OF first]
  have was: "migrations r1 = sortedByID drv1 (migrations r)"
    and all: "\<forall>m\<in>set (migrations r1). Migration_ID m \<in> ID ` set (ledger (committed (db r1)))"
    by (simp_all add: set_sortedByID)
  have ordered: "sorted (map Migration_ID (migrations r1))"
    unfolding was by (rule sorted_ids_sortedByID)
  note second = Up_nothing_pending [OF canRead all]
  have perm: "mset (sortedByID drv2 (migrations r1)) = mset (migrations r1)"
    by (rule mset_sortedByID)
  have ids: "map Migration_ID (sortedByID drv2 (migrations r1)) = map Migration_ID (migrations r1)"
    using ordered by (rule sortedByID_ids_of_sorted)
  have same: "Up drv2 r1 =
      (None, r1\<lparr>db := (db r1)\<lparr>calls := calls (db r1) @
                                  [SqlCreateTable, SqlCreateIndex, SqlSelect]\<rparr>\<rparr>)"
    if "distinct (map Migration_ID (migrations r))"
  proof -
    have eq: "mset (map Migration_ID (migrations r1)) = mset (map Migration_ID (migrations r))"
      unfolding was by (simp only: mset_map mset_sortedByID)
    from that have "distinct (map Migration_ID (migrations r1))"
      by (simp only: mset_eq_imp_distinct_iff [OF eq])
    with ordered have "sortedByID drv2 (migrations r1) = migrations r1"
      by (rule sortedByID_of_sorted_distinct)
    with second show ?thesis
      by simp
  qed
  show "Up drv2 r1 =
        (None, r1\<lparr>db := (db r1)\<lparr>calls := calls (db r1) @ [SqlCreateTable, SqlCreateIndex, SqlSelect]\<rparr>,
                  migrations := sortedByID drv2 (migrations r1)\<rparr>) \<and>
      mset (sortedByID drv2 (migrations r1)) = mset (migrations r1) \<and>
      map Migration_ID (sortedByID drv2 (migrations r1)) = map Migration_ID (migrations r1) \<and>
      (distinct (map Migration_ID (migrations r)) \<longrightarrow>
         Up drv2 r1 =
           (None, r1\<lparr>db := (db r1)\<lparr>calls := calls (db r1) @
                                       [SqlCreateTable, SqlCreateIndex, SqlSelect]\<rparr>\<rparr>))"
    using second perm ids same by (intro conjI impI)
qed

theorem Up_idempotent_witness:
  "Up demoDriver (Register [migC, migA] (New emptyDB)) =
     (None,
      \<lparr>db = \<lparr>committed =
               \<lparr>ledger = [\<lparr>ID = ''a'', Description = ''A'', AppliedAt = 7, Batch = 1\<rparr>,
                          \<lparr>ID = ''c'', Description = ''C'', AppliedAt = 7, Batch = 1\<rparr>],
                schema = [''CREATE TABLE t(id INT)'', ''ALTER TABLE t ADD COLUMN c TEXT'']\<rparr>,
             tx = None,
             calls = [SqlCreateTable, SqlCreateIndex, SqlSelect, SqlBegin,
                      SqlExec ''CREATE TABLE t(id INT)'', SqlInsert ''a'' ''A'' 1,
                      SqlExec ''ALTER TABLE t ADD COLUMN c TEXT'', SqlInsert ''c'' ''C'' 1,
                      SqlCommit]\<rparr>,
        migrations = [migA, migC]\<rparr>) \<and>
   Up demoDriver
     \<lparr>db = \<lparr>committed =
              \<lparr>ledger = [\<lparr>ID = ''a'', Description = ''A'', AppliedAt = 7, Batch = 1\<rparr>,
                         \<lparr>ID = ''c'', Description = ''C'', AppliedAt = 7, Batch = 1\<rparr>],
               schema = [''CREATE TABLE t(id INT)'', ''ALTER TABLE t ADD COLUMN c TEXT'']\<rparr>,
            tx = None,
            calls = [SqlCreateTable, SqlCreateIndex, SqlSelect, SqlBegin,
                     SqlExec ''CREATE TABLE t(id INT)'', SqlInsert ''a'' ''A'' 1,
                     SqlExec ''ALTER TABLE t ADD COLUMN c TEXT'', SqlInsert ''c'' ''C'' 1,
                     SqlCommit]\<rparr>,
       migrations = [migA, migC]\<rparr> =
     (None,
      \<lparr>db = \<lparr>committed =
               \<lparr>ledger = [\<lparr>ID = ''a'', Description = ''A'', AppliedAt = 7, Batch = 1\<rparr>,
                          \<lparr>ID = ''c'', Description = ''C'', AppliedAt = 7, Batch = 1\<rparr>],
                schema = [''CREATE TABLE t(id INT)'', ''ALTER TABLE t ADD COLUMN c TEXT'']\<rparr>,
             tx = None,
             calls = [SqlCreateTable, SqlCreateIndex, SqlSelect, SqlBegin,
                      SqlExec ''CREATE TABLE t(id INT)'', SqlInsert ''a'' ''A'' 1,
                      SqlExec ''ALTER TABLE t ADD COLUMN c TEXT'', SqlInsert ''c'' ''C'' 1,
                      SqlCommit, SqlCreateTable, SqlCreateIndex, SqlSelect]\<rparr>,
        migrations = [migA, migC]\<rparr>)"
proof -
  let ?r = "Register [migC, migA] (New emptyDB)"
  let ?r1 = "\<lparr>db = \<lparr>committed =
               \<lparr>ledger = [\<lparr>ID = ''a'', Description = ''A'', AppliedAt = 7, Batch = 1\<rparr>,
                          \<lparr>ID = ''c'', Description = ''C'', AppliedAt = 7, Batch = 1\<rparr>],
                schema = [''CREATE TABLE t(id INT)'', ''ALTER TABLE t ADD COLUMN c TEXT'']\<rparr>,
             tx = None,
             calls = [SqlCreateTable, SqlCreateIndex, SqlSelect, SqlBegin,
                      SqlExec ''CREATE TABLE t(id INT)'', SqlInsert ''a'' ''A'' 1,
                      SqlExec ''ALTER TABLE t ADD COLUMN c TEXT'', SqlInsert ''c'' ''C'' 1,
                      SqlCommit]\<rparr>,
        migrations = [migA, migC]\<rparr>"
  have canRead: "readable demoDriver (committed (db ?r1))"
    by (simp add: readable_def demoDriver_def)
  have ids: "distinct (map Migration_ID (migrations ?r))"
    by (simp add: Register_def New_def migA_def migC_def)
  note second = Up_idempotent [of demoDriver ?r demoDriver ?r1 demoDriver, THEN conjunct2]
  from second demo_Up_succeeds canRead ids
  have "Up demoDriver ?r1 =
        (None, ?r1\<lparr>db := (db ?r1)\<lparr>calls := calls (db ?r1) @ [SqlCreateTable, SqlCreateIndex, SqlSelect]\<rparr>\<rparr>)"
    by blast
  with demo_Up_succeeds show ?thesis
    by simp
qed

section \<open>The order of application\<close>


text \<open>The statements of a transaction among the calls on the handle.\<close>

fun isStatement :: "call \<Rightarrow> bool" where
  "isStatement (SqlExec query) = True"
| "isStatement (SqlInsert i desc batch) = True"
| "isStatement (SqlDelete i) = True"
| "isStatement c = False"

text \<open>The calls an engine operation made: those after the ones made before it.\<close>

definition newCalls :: "'s Migrator \<Rightarrow> 's Migrator \<Rightarrow> call list" where
  "newCalls r r' = drop (length (calls (db r))) (calls (db r'))"

lemma isStatement_upCalls: "\<forall>c\<in>set (upCalls batch m). isStatement c"
  by (auto simp: upCalls_def)

lemma isStatement_batchCalls: "\<forall>c\<in>set (batchCalls batch ms). isStatement c"
  using isStatement_upCalls by (auto simp: batchCalls_def)

lemma isStatement_downCalls: "\<forall>c\<in>set (downCalls migrationMap row). isStatement c"
  by (auto simp: downCalls_def split: option.splits)

lemma isStatement_rollbackCalls: "\<forall>c\<in>set (rollbackCalls migrationMap rows). isStatement c"
  using isStatement_downCalls by (auto simp: rollbackCalls_def)

lemma filter_statements_prefix:
  assumes "\<forall>c\<in>set plan. isStatement c" and "prefix xs plan"
  shows "filter isStatement xs = xs"
proof -
  from assms(2) have "set xs \<subseteq> set plan"
    by (rule set_mono_prefix)
  with assms(1) show ?thesis
    by (auto simp: filter_id_conv)
qed

lemma read_calls_no_statement:
  assumes "prefix xs [SqlCreateTable, SqlCreateIndex, SqlSelect]"
  shows "filter isStatement xs = []"
proof -
  from assms have "set xs \<subseteq> {SqlCreateTable, SqlCreateIndex, SqlSelect}"
    using set_mono_prefix by fastforce
  then show ?thesis
    by (auto simp: filter_empty_conv)
qed

lemma Up_statements:
  assumes "Up drv r = (res, r')"
  shows "prefix (filter isStatement (newCalls r r'))
           (batchCalls (nextBatch (committed (db r))) (pending drv (committed (db r)) (migrations r))) \<and>
         (res = None \<longrightarrow>
            filter isStatement (newCalls r r') =
              batchCalls (nextBatch (committed (db r)))
                (pending drv (committed (db r)) (migrations r)))"
  using assms
proof (cases rule: Up_cases)
  case (readFails err xs)
  then show ?thesis
    by (simp add: newCalls_def read_calls_no_statement)
next
  case nothing
  then show ?thesis
    by (simp add: newCalls_def afterRead_def batchCalls_def)
next
  case (batch d2)
  let ?plan = "batchCalls (nextBatch (committed (db r))) (pending drv (committed (db r)) (migrations r))"
  have all: "\<forall>c\<in>set ?plan. isStatement c"
    by (rule isStatement_batchCalls)
  then have whole: "filter isStatement ?plan = ?plan"
    by (auto simp: filter_id_conv)
  from batch(3) show ?thesis
  proof (cases rule: executeMigrationBatch_cases)
    case (beginFails msg)
    then show ?thesis
      using batch(4) by (simp add: newCalls_def afterRead_def)
  next
    case (bodyFails err xs)
    then show ?thesis
      using batch(4) filter_statements_prefix [OF all bodyFails(2)]
      by (simp add: newCalls_def afterRead_def)
  next
    case (commitFails err)
    then show ?thesis
      using batch(4) whole by (simp add: newCalls_def afterRead_def)
  next
    case (success w')
    then show ?thesis
      using batch(4) whole by (simp add: newCalls_def afterRead_def)
  qed
qed

lemma sorted_ids_pending: "sorted (map Migration_ID (pending drv st ms))"
proof -
  have "sorted (map Migration_ID (sortedByID drv ms))"
    unfolding sortedByID_def by (rule sorted_ids_sortSlice)
  then show ?thesis
    unfolding pending_def by (simp add: sorted_map sorted_wrt_filter)
qed

lemma mset_pending:
  "mset (pending drv st ms) = mset (filter (\<lambda>m. Migration_ID m \<notin> ID ` set (ledger st)) ms)"
  by (simp add: pending_def sortedByID_def mset_sortSlice)

lemma pending_ids_permutation:
  assumes "mset ms' = mset ms"
  shows "map Migration_ID (pending drv' st ms') = map Migration_ID (pending drv st ms)"
proof -
  have "mset (pending drv' st ms') = mset (pending drv st ms)"
    by (simp only: mset_pending mset_filter assms)
  then have "mset (map Migration_ID (pending drv' st ms')) = mset (map Migration_ID (pending drv st ms))"
    by (simp only: mset_map)
  then have a: "sort (map Migration_ID (pending drv st ms)) = map Migration_ID (pending drv' st ms')"
    using sorted_ids_pending by (rule properties_for_sort)
  have b: "sort (map Migration_ID (pending drv st ms)) = map Migration_ID (pending drv st ms)"
    using refl sorted_ids_pending by (rule properties_for_sort)
  show ?thesis
    by (rule trans [OF a [symmetric] b])
qed

text \<open>
  C3. \<open>Up\<close> executes the unapplied migrations in ascending order of identifier. The
  pending migrations are the registered ones whose identifier the Ledger does not
  hold, as a list sorted ascending by identifier, and their identifiers come in the same
  sequence for every order of registration and every choice the runtime's sort makes
  among equal identifiers. The statements \<open>Up\<close> executes are, in order, those of the
  pending migrations in that sequence, each migration's non-blank forward statements
  followed by its Ledger insert: all of them when \<open>Up\<close> returns no error, and a prefix
  of them otherwise.
\<close>

theorem Up_ascending_order:
  assumes "Up drv r = (res, r')"
  shows "sorted (map Migration_ID (pending drv (committed (db r)) (migrations r))) \<and>
         mset (pending drv (committed (db r)) (migrations r)) =
           mset (filter (\<lambda>m. Migration_ID m \<notin> ID ` set (ledger (committed (db r))))
                   (migrations r)) \<and>
         (\<forall>drv' ms'. mset ms' = mset (migrations r) \<longrightarrow>
            map Migration_ID (pending drv' (committed (db r)) ms') =
            map Migration_ID (pending drv (committed (db r)) (migrations r))) \<and>
         prefix (filter isStatement (newCalls r r'))
           (batchCalls (nextBatch (committed (db r)))
              (pending drv (committed (db r)) (migrations r))) \<and>
         (res = None \<longrightarrow>
            filter isStatement (newCalls r r') =
              batchCalls (nextBatch (committed (db r)))
                (pending drv (committed (db r)) (migrations r)))"
proof (intro conjI)
  show "sorted (map Migration_ID (pending drv (committed (db r)) (migrations r)))"
    by (rule sorted_ids_pending)
  show "mset (pending drv (committed (db r)) (migrations r)) =
      mset (filter (\<lambda>m. Migration_ID m \<notin> ID ` set (ledger (committed (db r))))
              (migrations r))"
    by (rule mset_pending)
  show "\<forall>drv' ms'. mset ms' = mset (migrations r) \<longrightarrow>
      map Migration_ID (pending drv' (committed (db r)) ms') =
      map Migration_ID (pending drv (committed (db r)) (migrations r))"
    by (intro allI impI) (rule pending_ids_permutation)
  show "prefix (filter isStatement (newCalls r r'))
      (batchCalls (nextBatch (committed (db r)))
         (pending drv (committed (db r)) (migrations r)))"
    using Up_statements [OF assms] by (rule conjunct1)
  show "res = None \<longrightarrow>
      filter isStatement (newCalls r r') =
        batchCalls (nextBatch (committed (db r)))
          (pending drv (committed (db r)) (migrations r))"
    using Up_statements [OF assms] by (rule conjunct2)
qed

theorem Up_ascending_order_witness:
  "Up demoDriver (Register [migC, migA] (New emptyDB)) =
     (None,
      \<lparr>db = \<lparr>committed =
               \<lparr>ledger = [\<lparr>ID = ''a'', Description = ''A'', AppliedAt = 7, Batch = 1\<rparr>,
                          \<lparr>ID = ''c'', Description = ''C'', AppliedAt = 7, Batch = 1\<rparr>],
                schema = [''CREATE TABLE t(id INT)'', ''ALTER TABLE t ADD COLUMN c TEXT'']\<rparr>,
             tx = None,
             calls = [SqlCreateTable, SqlCreateIndex, SqlSelect, SqlBegin,
                      SqlExec ''CREATE TABLE t(id INT)'', SqlInsert ''a'' ''A'' 1,
                      SqlExec ''ALTER TABLE t ADD COLUMN c TEXT'', SqlInsert ''c'' ''C'' 1,
                      SqlCommit]\<rparr>,
        migrations = [migA, migC]\<rparr>) \<and>
   pending demoDriver \<lparr>ledger = [], schema = ([]::string list)\<rparr> [migC, migA] = [migA, migC] \<and>
   sorted (map Migration_ID [migA, migC]) \<and>
   batchCalls 1 [migA, migC] =
     [SqlExec ''CREATE TABLE t(id INT)'', SqlInsert ''a'' ''A'' 1,
      SqlExec ''ALTER TABLE t ADD COLUMN c TEXT'', SqlInsert ''c'' ''C'' 1]"
proof -
  let ?r = "Register [migC, migA] (New emptyDB)"
  let ?r1 = "\<lparr>db = \<lparr>committed =
               \<lparr>ledger = [\<lparr>ID = ''a'', Description = ''A'', AppliedAt = 7, Batch = 1\<rparr>,
                          \<lparr>ID = ''c'', Description = ''C'', AppliedAt = 7, Batch = 1\<rparr>],
                schema = [''CREATE TABLE t(id INT)'', ''ALTER TABLE t ADD COLUMN c TEXT'']\<rparr>,
             tx = None,
             calls = [SqlCreateTable, SqlCreateIndex, SqlSelect, SqlBegin,
                      SqlExec ''CREATE TABLE t(id INT)'', SqlInsert ''a'' ''A'' 1,
                      SqlExec ''ALTER TABLE t ADD COLUMN c TEXT'', SqlInsert ''c'' ''C'' 1,
                      SqlCommit]\<rparr>,
        migrations = [migA, migC]\<rparr>"
  have start: "committed (db ?r) = \<lparr>ledger = [], schema = []\<rparr>" "migrations ?r = [migC, migA]"
    by (simp_all add: Register_def New_def emptyDB_def)
  have news: "pending demoDriver \<lparr>ledger = [], schema = ([]::string list)\<rparr> [migC, migA] = [migA, migC]"
    by (simp add: pending_def sortedByID_def sortSlice_def arrange_def insertionSort_def
        demoDriver_def migA_def migC_def)
  have batch: "nextBatch \<lparr>ledger = [], schema = ([]::string list)\<rparr> = 1"
    by (simp add: nextBatch_def selectLedger_def sortSlice_def arrange_def insertionSort_def getNextBatchNumber_def wrapInt_def)
  have made: "filter isStatement (newCalls ?r ?r1) =
      [SqlExec ''CREATE TABLE t(id INT)'', SqlInsert ''a'' ''A'' 1,
       SqlExec ''ALTER TABLE t ADD COLUMN c TEXT'', SqlInsert ''c'' ''C'' 1]"
    by (simp add: newCalls_def Register_def New_def emptyDB_def)
  from Up_ascending_order [OF demo_Up_succeeds]
  have ordered: "sorted (map Migration_ID [migA, migC])"
    and stmts: "filter isStatement (newCalls ?r ?r1) = batchCalls 1 [migA, migC]"
    by (simp_all only: start news batch)
  show ?thesis
    by (intro conjI)
      (rule demo_Up_succeeds, rule news, rule ordered, rule trans [OF stmts [symmetric] made])
qed

lemma wrapInt_id: "- (2 ^ 63) \<le> x \<Longrightarrow> x < 2 ^ 63 \<Longrightarrow> wrapInt x = x"
  by (simp add: wrapInt_def)

lemma nextBatch_wrapInt:
  "nextBatch st = wrapInt (1 + Max (insert 0 (Batch ` set (ledger st))))"
  by (simp add: nextBatch_def getNextBatchNumber_Max set_selectLedger add.commute)

lemma Max_insert_zero_batches:
  "Max (insert 0 (Batch ` set rows)) = (if rows = [] then 0 else max 0 (Max (Batch ` set rows)))"
  by (cases rows) simp_all

lemma nextBatch_below_greatest:
  assumes "\<forall>row\<in>set (ledger st). Batch row < 2 ^ 63 - 1"
  shows "nextBatch st =
           (if ledger st = [] then 1 else 1 + max 0 (Max (Batch ` set (ledger st))))"
proof -
  let ?S = "Batch ` set (ledger st)"
  let ?M = "Max (insert 0 ?S)"
  have "?M \<in> insert 0 ?S"
    by (rule Max_in) (simp_all)
  with assms have upper: "?M < 2 ^ 63 - 1"
    by auto
  have lower: "0 \<le> ?M"
    by (rule Max_ge) simp_all
  from lower upper have "wrapInt (1 + ?M) = 1 + ?M"
    by (intro wrapInt_id) simp_all
  then have "nextBatch st = 1 + ?M"
    by (simp only: nextBatch_wrapInt)
  then show ?thesis
    by (simp add: Max_insert_zero_batches)
qed

lemma nextBatch_Max:
  assumes "\<forall>row\<in>set (ledger st). Batch row < 2 ^ 63 - 1"
    and "\<exists>row\<in>set (ledger st). 0 \<le> Batch row"
  shows "nextBatch st = 1 + Max (Batch ` set (ledger st))"
proof -
  from assms(2) obtain row where row: "row \<in> set (ledger st)" "0 \<le> Batch row"
    by blast
  then have ne: "ledger st \<noteq> []"
    by auto
  have "Batch row \<le> Max (Batch ` set (ledger st))"
    using row(1) by (intro Max_ge) simp_all
  with row(2) have "max 0 (Max (Batch ` set (ledger st))) = Max (Batch ` set (ledger st))"
    by simp
  with nextBatch_below_greatest [OF assms(1)] ne show ?thesis
    by simp
qed

lemma insert_batchCalls: "SqlInsert i desc b \<in> set (batchCalls batch ms) \<Longrightarrow> b = batch"
  by (auto simp: batchCalls_def upCalls_def)

lemma Up_inserts_batch:
  assumes "Up drv r = (res, r')" and "SqlInsert i desc b \<in> set (newCalls r r')"
  shows "b = nextBatch (committed (db r))"
proof -
  from assms(2) have "SqlInsert i desc b \<in> set (filter isStatement (newCalls r r'))"
    by simp
  with Up_statements [OF assms(1)]
  have "SqlInsert i desc b \<in>
      set (batchCalls (nextBatch (committed (db r))) (pending drv (committed (db r)) (migrations r)))"
    using set_mono_prefix by blast
  then show ?thesis
    by (rule insert_batchCalls)
qed

text \<open>
  C4. Every Ledger row an \<open>Up\<close> call writes carries one and the same batch number:
  1 plus the greater of 0 and the greatest batch number in the Ledger, the sum taken in
  Go's 64-bit \<open>int\<close>. When no batch number in the Ledger is the greatest \<open>int\<close>, this
  is 1 on an empty Ledger and 1 plus the greater of 0 and the greatest batch number present
  otherwise; when moreover some batch number present is not negative, it is 1 plus the
  greatest batch number present, whatever gaps there are between the batch numbers.
\<close>

theorem Up_batch_number:
  assumes "Up drv r = (res, r')"
  shows "nextBatch (committed (db r)) =
           wrapInt (1 + Max (insert 0 (Batch ` set (ledger (committed (db r)))))) \<and>
         ((\<forall>row\<in>set (ledger (committed (db r))). Batch row < 2 ^ 63 - 1) \<longrightarrow>
            nextBatch (committed (db r)) =
              (if ledger (committed (db r)) = [] then 1
               else 1 + max 0 (Max (Batch ` set (ledger (committed (db r))))))) \<and>
         ((\<forall>row\<in>set (ledger (committed (db r))). Batch row < 2 ^ 63 - 1) \<and>
          (\<exists>row\<in>set (ledger (committed (db r))). 0 \<le> Batch row) \<longrightarrow>
            nextBatch (committed (db r)) =
              1 + Max (Batch ` set (ledger (committed (db r))))) \<and>
         (\<forall>c\<in>set (newCalls r r'). \<forall>i desc b.
            c = SqlInsert i desc b \<longrightarrow> b = nextBatch (committed (db r))) \<and>
         (res = None \<longrightarrow>
            take (length (ledger (committed (db r)))) (ledger (committed (db r'))) =
              ledger (committed (db r)) \<and>
            length (ledger (committed (db r'))) =
              length (ledger (committed (db r))) +
              length (pending drv (committed (db r)) (migrations r)) \<and>
            (\<forall>row\<in>set (drop (length (ledger (committed (db r)))) (ledger (committed (db r')))).
               Batch row = nextBatch (committed (db r))))"
proof (intro conjI)
  show "nextBatch (committed (db r)) =
      wrapInt (1 + Max (insert 0 (Batch ` set (ledger (committed (db r))))))"
    by (rule nextBatch_wrapInt)
  show "(\<forall>row\<in>set (ledger (committed (db r))). Batch row < 2 ^ 63 - 1) \<longrightarrow>
      nextBatch (committed (db r)) =
        (if ledger (committed (db r)) = [] then 1
         else 1 + max 0 (Max (Batch ` set (ledger (committed (db r))))))"
    by (rule impI) (rule nextBatch_below_greatest)
  show "(\<forall>row\<in>set (ledger (committed (db r))). Batch row < 2 ^ 63 - 1) \<and>
      (\<exists>row\<in>set (ledger (committed (db r))). 0 \<le> Batch row) \<longrightarrow>
      nextBatch (committed (db r)) = 1 + Max (Batch ` set (ledger (committed (db r))))"
  proof (rule impI)
    assume both: "(\<forall>row\<in>set (ledger (committed (db r))). Batch row < 2 ^ 63 - 1) \<and>
      (\<exists>row\<in>set (ledger (committed (db r))). 0 \<le> Batch row)"
    show "nextBatch (committed (db r)) = 1 + Max (Batch ` set (ledger (committed (db r))))"
      by (rule nextBatch_Max [OF both [THEN conjunct1] both [THEN conjunct2]])
  qed
  show "\<forall>c\<in>set (newCalls r r'). \<forall>i desc b.
      c = SqlInsert i desc b \<longrightarrow> b = nextBatch (committed (db r))"
    using Up_inserts_batch [OF assms(1)] by blast
  show "res = None \<longrightarrow>
      take (length (ledger (committed (db r)))) (ledger (committed (db r'))) =
        ledger (committed (db r)) \<and>
      length (ledger (committed (db r'))) =
        length (ledger (committed (db r))) +
        length (pending drv (committed (db r)) (migrations r)) \<and>
      (\<forall>row\<in>set (drop (length (ledger (committed (db r)))) (ledger (committed (db r')))).
         Batch row = nextBatch (committed (db r)))"
  proof (rule impI)
    assume "res = None"
    with assms(1) have "Up drv r = (None, r')" by simp
    from Up_success_effect [OF this]
    have led: "ledger (committed (db r')) =
        ledger (committed (db r)) @
        map (ledgerRow drv (nextBatch (committed (db r))))
          (pending drv (committed (db r)) (migrations r))"
      by simp
    show "take (length (ledger (committed (db r)))) (ledger (committed (db r'))) =
        ledger (committed (db r)) \<and>
      length (ledger (committed (db r'))) =
        length (ledger (committed (db r))) +
        length (pending drv (committed (db r)) (migrations r)) \<and>
      (\<forall>row\<in>set (drop (length (ledger (committed (db r)))) (ledger (committed (db r')))).
         Batch row = nextBatch (committed (db r)))"
      by (auto simp: led ledgerRow_def)
  qed
qed

text \<open>A Ledger with a gap in its batch numbers (1 and 3), left by a rollback of batch 2.\<close>

definition gapDB :: "string list sqlDB" where
  "gapDB =
     \<lparr>committed =
        \<lparr>ledger = [\<lparr>ID = ''a'', Description = ''A'', AppliedAt = 5, Batch = 1\<rparr>,
                   \<lparr>ID = ''c'', Description = ''C'', AppliedAt = 6, Batch = 3\<rparr>],
         schema = [''CREATE TABLE t(id INT)'', ''ALTER TABLE t ADD COLUMN c TEXT'']\<rparr>,
      tx = None, calls = []\<rparr>"

definition migD :: Migration where
  "migD = \<lparr>id' = ''d'', description = ''D'', upQueries = [''CREATE INDEX i ON t(c)''],
           downQueries = [''DROP INDEX i'']\<rparr>"

lemma demo_Up_gap:
  "Up demoDriver (Register [migD, migA] (New gapDB)) =
     (None,
      \<lparr>db = \<lparr>committed =
               \<lparr>ledger = [\<lparr>ID = ''a'', Description = ''A'', AppliedAt = 5, Batch = 1\<rparr>,
                          \<lparr>ID = ''c'', Description = ''C'', AppliedAt = 6, Batch = 3\<rparr>,
                          \<lparr>ID = ''d'', Description = ''D'', AppliedAt = 7, Batch = 4\<rparr>],
                schema = [''CREATE TABLE t(id INT)'', ''ALTER TABLE t ADD COLUMN c TEXT'',
                          ''CREATE INDEX i ON t(c)'']\<rparr>,
             tx = None,
             calls = [SqlCreateTable, SqlCreateIndex, SqlSelect, SqlBegin,
                      SqlExec ''CREATE INDEX i ON t(c)'', SqlInsert ''d'' ''D'' 4, SqlCommit]\<rparr>,
        migrations = [migA, migD]\<rparr>)"
  by (simp add: engine_eval ws_eval demoDriver_def gapDB_def migA_def migD_def)

theorem Up_batch_number_witness:
  "Up demoDriver (Register [migD, migA] (New gapDB)) =
     (None,
      \<lparr>db = \<lparr>committed =
               \<lparr>ledger = [\<lparr>ID = ''a'', Description = ''A'', AppliedAt = 5, Batch = 1\<rparr>,
                          \<lparr>ID = ''c'', Description = ''C'', AppliedAt = 6, Batch = 3\<rparr>,
                          \<lparr>ID = ''d'', Description = ''D'', AppliedAt = 7, Batch = 4\<rparr>],
                schema = [''CREATE TABLE t(id INT)'', ''ALTER TABLE t ADD COLUMN c TEXT'',
                          ''CREATE INDEX i ON t(c)'']\<rparr>,
             tx = None,
             calls = [SqlCreateTable, SqlCreateIndex, SqlSelect, SqlBegin,
                      SqlExec ''CREATE INDEX i ON t(c)'', SqlInsert ''d'' ''D'' 4, SqlCommit]\<rparr>,
        migrations = [migA, migD]\<rparr>) \<and>
   map Batch (ledger (committed gapDB)) = [1, 3] \<and>
   nextBatch (committed gapDB) = 1 + Max (Batch ` set (ledger (committed gapDB))) \<and>
   nextBatch (committed gapDB) = 4"
proof -
  let ?r = "Register [migD, migA] (New gapDB)"
  have start: "committed (db ?r) = committed gapDB"
    by (simp add: Register_def New_def)
  have rows: "ledger (committed gapDB) =
      [\<lparr>ID = ''a'', Description = ''A'', AppliedAt = 5, Batch = 1\<rparr>,
       \<lparr>ID = ''c'', Description = ''C'', AppliedAt = 6, Batch = 3\<rparr>]"
    by (simp add: gapDB_def)
  have bounded: "(\<forall>row\<in>set (ledger (committed (db ?r))). Batch row < 2 ^ 63 - 1) \<and>
      (\<exists>row\<in>set (ledger (committed (db ?r))). 0 \<le> Batch row)"
    by (simp add: start rows)
  note claim = Up_batch_number [OF demo_Up_gap]
  from claim [THEN conjunct2, THEN conjunct2, THEN conjunct1, rule_format, OF bounded]
  have next_max: "nextBatch (committed gapDB) = 1 + Max (Batch ` set (ledger (committed gapDB)))"
    by (simp only: start)
  then have "nextBatch (committed gapDB) = 4"
    by (simp add: rows)
  with demo_Up_gap next_max show ?thesis
    by (simp add: rows)
qed

text \<open>
  The claim as stated fails on two Ledgers. With only a negative batch number present
  (\<open>-3\<close>), 1 plus the maximum present is \<open>-2\<close>, but the engine starts its maximum at 0
  and writes batch 1. With the greatest \<open>int\<close> present, 1 plus the maximum is \<open>2 ^ 63\<close>,
  but the engine's sum wraps around and it writes batch \<open>- (2 ^ 63)\<close>.
\<close>

definition negativeDB :: "string list sqlDB" where
  "negativeDB =
     \<lparr>committed =
        \<lparr>ledger = [\<lparr>ID = ''a'', Description = ''A'', AppliedAt = 5, Batch = - 3\<rparr>],
         schema = [''CREATE TABLE t(id INT)'']\<rparr>,
      tx = None, calls = []\<rparr>"

definition greatestDB :: "string list sqlDB" where
  "greatestDB =
     \<lparr>committed =
        \<lparr>ledger = [\<lparr>ID = ''a'', Description = ''A'', AppliedAt = 5,
                    Batch = 9223372036854775807\<rparr>],
         schema = [''CREATE TABLE t(id INT)'']\<rparr>,
      tx = None, calls = []\<rparr>"

theorem Up_batch_number_counterexample:
  "Up demoDriver (Register [migD] (New negativeDB)) =
     (None,
      \<lparr>db = \<lparr>committed =
               \<lparr>ledger = [\<lparr>ID = ''a'', Description = ''A'', AppliedAt = 5, Batch = - 3\<rparr>,
                          \<lparr>ID = ''d'', Description = ''D'', AppliedAt = 7, Batch = 1\<rparr>],
                schema = [''CREATE TABLE t(id INT)'', ''CREATE INDEX i ON t(c)'']\<rparr>,
             tx = None,
             calls = [SqlCreateTable, SqlCreateIndex, SqlSelect, SqlBegin,
                      SqlExec ''CREATE INDEX i ON t(c)'', SqlInsert ''d'' ''D'' 1, SqlCommit]\<rparr>,
        migrations = [migD]\<rparr>) \<and>
   1 + Max (Batch ` set (ledger (committed negativeDB))) = - 2 \<and>
   Up demoDriver (Register [migD] (New greatestDB)) =
     (None,
      \<lparr>db = \<lparr>committed =
               \<lparr>ledger = [\<lparr>ID = ''a'', Description = ''A'', AppliedAt = 5,
                           Batch = 9223372036854775807\<rparr>,
                          \<lparr>ID = ''d'', Description = ''D'', AppliedAt = 7,
                           Batch = - 9223372036854775808\<rparr>],
                schema = [''CREATE TABLE t(id INT)'', ''CREATE INDEX i ON t(c)'']\<rparr>,
             tx = None,
             calls = [SqlCreateTable, SqlCreateIndex, SqlSelect, SqlBegin,
                      SqlExec ''CREATE INDEX i ON t(c)'',
                      SqlInsert ''d'' ''D'' (- 9223372036854775808), SqlCommit]\<rparr>,
        migrations = [migD]\<rparr>) \<and>
   1 + Max (Batch ` set (ledger (committed greatestDB))) = 9223372036854775808"
  by (simp add: engine_eval ws_eval demoDriver_def negativeDB_def greatestDB_def migD_def)

section \<open>Rollback: selection and order\<close>


text \<open>
  The words of the specification for steps 3 and 4 of Rollback: the applied rows in
  rollback order, and the number of rows a \<open>steps\<close> argument selects among \<open>n\<close>.
\<close>

definition rollbackOrder :: "'s driver \<Rightarrow> 's store \<Rightarrow> MigrationStatus list" where
  "rollbackOrder drv st =
     sortSlice (sortChoice drv)
       (\<lambda>a b. Batch a > Batch b \<or> (Batch a = Batch b \<and> ID a > ID b)) (selectLedger st)"

definition rollbackCount :: "int \<Rightarrow> nat \<Rightarrow> nat" where
  "rollbackCount steps n = (if steps \<le> 0 \<or> steps > int n then n else nat steps)"

fun isDelete :: "call \<Rightarrow> bool" where
  "isDelete (SqlDelete i) = True"
| "isDelete c = False"

lemma mset_rollbackOrder: "mset (rollbackOrder drv st) = mset (ledger st)"
  by (simp add: rollbackOrder_def mset_sortSlice mset_selectLedger)

lemma length_rollbackOrder: "length (rollbackOrder drv st) = length (ledger st)"
  by (simp add: rollbackOrder_def selectLedger_def length_sortSlice length_insertionSort)

lemma set_rollbackOrder: "set (rollbackOrder drv st) = set (ledger st)"
  by (simp add: rollbackOrder_def set_sortSlice set_selectLedger)

lemma sorted_rollbackOrder:
  "sorted_wrt (\<lambda>a b. Batch a > Batch b \<or> (Batch a = Batch b \<and> ID a \<ge> ID b)) (rollbackOrder drv st)"
proof -
  let ?lt = "\<lambda>a b::MigrationStatus. Batch a > Batch b \<or> (Batch a = Batch b \<and> ID a > ID b)"
  have "sorted_wrt (\<lambda>a b. \<not> ?lt b a) (rollbackOrder drv st)"
    unfolding rollbackOrder_def
  proof (rule sorted_wrt_sortSlice)
    fix a b c :: MigrationStatus
    assume "\<not> ?lt b a" "\<not> ?lt c b"
    then show "\<not> ?lt c a"
      by (auto simp: not_less)
  next
    fix a b :: MigrationStatus
    assume "?lt a b"
    then show "\<not> ?lt b a"
      by auto
  qed
  moreover have "(\<not> ?lt b a) = (Batch a > Batch b \<or> (Batch a = Batch b \<and> ID a \<ge> ID b))"
    for a b :: MigrationStatus
    by auto
  ultimately show ?thesis
    by simp
qed

lemma buildRollbackList_selectLedger:
  "buildRollbackList (sortChoice drv) (selectLedger st) steps =
     take (rollbackCount steps (length (ledger st))) (rollbackOrder drv st)"
  by (simp add: buildRollbackList_def rollbackOrder_def rollbackCount_def Let_def
      length_sortSlice length_insertionSort selectLedger_def)

lemma Down_cases:
  assumes "Down drv steps r = (res, r')"
  obtains
    (readFails) err xs where "\<not> readable drv (committed (db r))"
      "res = Some (Join ErrFailedToGetAppliedMigrations err)"
      "r' = r\<lparr>db := (db r)\<lparr>calls := calls (db r) @ xs\<rparr>\<rparr>"
      "prefix xs [SqlCreateTable, SqlCreateIndex, SqlSelect]"
  | (nothing) "readable drv (committed (db r))" "ledger (committed (db r)) = []"
      "res = Some ErrNoMigrationsToRollback" "r' = r\<lparr>db := afterRead (db r)\<rparr>"
  | (rollback) d2 where "readable drv (committed (db r))" "ledger (committed (db r)) \<noteq> []"
      "executeRollback drv
         (take (rollbackCount steps (length (ledger (committed (db r)))))
            (rollbackOrder drv (committed (db r))))
         (buildMigrationMap (migrations r)) (afterRead (db r)) = (res, d2)"
      "r' = r\<lparr>db := d2\<rparr>"
proof (cases drv "db r" rule: getAppliedMigrations_cases)
  case (fails err xs)
  with assms have "res = Some (Join ErrFailedToGetAppliedMigrations err)"
    and "r' = r\<lparr>db := (db r)\<lparr>calls := calls (db r) @ xs\<rparr>\<rparr>"
    by (simp_all add: Down_def)
  with fails(1) show ?thesis
    using fails(3) by (rule readFails)
next
  case reads
  let ?st = "committed (db r)"
  show ?thesis
  proof (cases "ledger ?st = []")
    case True
    with assms reads have "res = Some ErrNoMigrationsToRollback"
      and "r' = r\<lparr>db := afterRead (db r)\<rparr>"
      by (simp_all add: Down_def selectLedger_Nil_iff)
    with reads(1) True show ?thesis
      by (rule nothing)
  next
    case False
    let ?rows = "take (rollbackCount steps (length (ledger ?st))) (rollbackOrder drv ?st)"
    obtain r2 d2 where run: "executeRollback drv ?rows (buildMigrationMap (migrations r))
        (afterRead (db r)) = (r2, d2)"
      by (cases "executeRollback drv ?rows (buildMigrationMap (migrations r)) (afterRead (db r))")
    have "Down drv steps r = (r2, r\<lparr>db := d2\<rparr>)"
      using reads False run
      by (simp add: Down_def Let_def selectLedger_Nil_iff buildRollbackList_selectLedger)
    with assms have "r2 = res" and "r' = r\<lparr>db := d2\<rparr>"
      by simp_all
    with reads(1) False run show ?thesis
      by (intro rollback [of d2]) simp_all
  qed
qed

lemma runCalls_downCalls:
  assumes "runCalls drv (downCalls migrationMap row) w = Inr w'"
  shows "ledger w' = filter (\<lambda>x. ID x \<noteq> ID row) (ledger w)"
proof -
  let ?qs = "case migrationMap (ID row) of None \<Rightarrow> [] | Some m \<Rightarrow> reverseStatements m"
  have plan: "downCalls migrationMap row = map SqlExec ?qs @ [SqlDelete (ID row)]"
    by (simp add: downCalls_def split: option.splits)
  show ?thesis
  proof (cases "runStatements (sem drv) ?qs (schema w)")
    case (Inl msg)
    with assms show ?thesis
      by (simp add: plan runCalls_append runCalls_statements)
  next
    case (Inr s')
    with assms show ?thesis
      by (auto simp: plan runCalls_append runCalls_statements)
  qed
qed

lemma runCalls_rollbackCalls:
  assumes "runCalls drv (rollbackCalls migrationMap rows) w = Inr w'"
  shows "ledger w' = filter (\<lambda>x. ID x \<notin> ID ` set rows) (ledger w)"
  using assms
proof (induction rows arbitrary: w)
  case Nil
  then show ?case by (simp add: rollbackCalls_def)
next
  case (Cons row rows)
  from Cons.prems obtain w1 where w1: "runCalls drv (downCalls migrationMap row) w = Inr w1"
    and rest: "runCalls drv (rollbackCalls migrationMap rows) w1 = Inr w'"
    by (cases "runCalls drv (downCalls migrationMap row) w")
      (simp_all add: rollbackCalls_def runCalls_append)
  have "ledger w' = filter (\<lambda>x. ID x \<notin> ID ` set rows) (filter (\<lambda>x. ID x \<noteq> ID row) (ledger w))"
    using runCalls_downCalls [OF w1] Cons.IH [OF rest] by simp
  also have "\<dots> = filter (\<lambda>x. ID x \<notin> ID ` set (row # rows)) (ledger w)"
    by (auto intro: filter_cong)
  finally show ?case .
qed

lemma deletes_downCalls:
  "filter isDelete (downCalls migrationMap row) = [SqlDelete (ID row)]"
  by (auto simp: downCalls_def filter_empty_conv split: option.splits)

lemma deletes_rollbackCalls:
  "filter isDelete (rollbackCalls migrationMap rows) = map (\<lambda>row. SqlDelete (ID row)) rows"
  by (induction rows) (simp_all add: rollbackCalls_def deletes_downCalls)

lemma Down_statements:
  assumes "Down drv steps r = (res, r')"
    and "ledger (committed (db r)) \<noteq> []"
  shows "prefix (filter isStatement (newCalls r r'))
           (rollbackCalls (buildMigrationMap (migrations r))
              (take (rollbackCount steps (length (ledger (committed (db r)))))
                 (rollbackOrder drv (committed (db r))))) \<and>
         (res = None \<longrightarrow>
            filter isStatement (newCalls r r') =
              rollbackCalls (buildMigrationMap (migrations r))
                (take (rollbackCount steps (length (ledger (committed (db r)))))
                   (rollbackOrder drv (committed (db r)))) \<and>
            ledger (committed (db r')) =
              filter (\<lambda>x. ID x \<notin> ID ` set (take (rollbackCount steps (length (ledger (committed (db r)))))
                                                (rollbackOrder drv (committed (db r)))))
                (ledger (committed (db r))))"
  using assms(1)
proof (cases rule: Down_cases)
  case (readFails err xs)
  then show ?thesis
    by (simp add: newCalls_def read_calls_no_statement)
next
  case nothing
  with assms(2) show ?thesis by simp
next
  case (rollback d2)
  let ?plan = "rollbackCalls (buildMigrationMap (migrations r))
      (take (rollbackCount steps (length (ledger (committed (db r)))))
         (rollbackOrder drv (committed (db r))))"
  have all: "\<forall>c\<in>set ?plan. isStatement c"
    by (rule isStatement_rollbackCalls)
  then have whole: "filter isStatement ?plan = ?plan"
    by (auto simp: filter_id_conv)
  from rollback(3) show ?thesis
  proof (cases rule: executeRollback_cases)
    case (beginFails msg)
    then show ?thesis
      using rollback(4) by (simp add: newCalls_def afterRead_def)
  next
    case (bodyFails err xs)
    then show ?thesis
      using rollback(4) filter_statements_prefix [OF all bodyFails(2)]
      by (simp add: newCalls_def afterRead_def)
  next
    case (commitFails err)
    then show ?thesis
      using rollback(4) whole by (simp add: newCalls_def afterRead_def)
  next
    case (success w')
    from runCalls_rollbackCalls [OF success(2)] success(1,3) rollback(4) whole show ?thesis
      by (simp add: newCalls_def afterRead_def)
  qed
qed

lemma isDelete_isStatement: "(isStatement c \<and> isDelete c) = isDelete c"
  by (cases c) simp_all

lemma filter_deletes_statements:
  "filter isDelete (filter isStatement xs) = filter isDelete xs"
  by (simp add: isDelete_isStatement)

text \<open>
  C5. On a Ledger that is not empty, \<open>Down(steps)\<close> selects the first \<open>k\<close> rows of the
  applied rows in rollback order: a permutation of the Ledger rows sorted descending by
  batch and, within a batch, descending by identifier; \<open>k\<close> is the number of Ledger rows
  when \<open>steps \<le> 0\<close> or \<open>steps\<close> exceeds it, and \<open>steps\<close> otherwise. The statements
  \<open>Down\<close> executes are those of the selected rows in that order, each row's reverse
  statements followed by the delete of its Ledger row: all of them when \<open>Down\<close> returns
  no error (and then exactly the selected rows are gone from the Ledger), a prefix of
  them otherwise.
\<close>

theorem Down_rollback_selection:
  assumes "Down drv steps r = (res, r')"
    and "ledger (committed (db r)) \<noteq> []"
  shows "mset (rollbackOrder drv (committed (db r))) = mset (ledger (committed (db r))) \<and>
         sorted_wrt (\<lambda>a b. Batch a > Batch b \<or> (Batch a = Batch b \<and> ID a \<ge> ID b))
           (rollbackOrder drv (committed (db r))) \<and>
         rollbackCount steps (length (ledger (committed (db r)))) =
           (if steps \<le> 0 \<or> steps > int (length (ledger (committed (db r))))
            then length (ledger (committed (db r))) else nat steps) \<and>
         prefix (filter isStatement (newCalls r r'))
           (rollbackCalls (buildMigrationMap (migrations r))
              (take (rollbackCount steps (length (ledger (committed (db r)))))
                 (rollbackOrder drv (committed (db r))))) \<and>
         (res = None \<longrightarrow>
            filter isStatement (newCalls r r') =
              rollbackCalls (buildMigrationMap (migrations r))
                (take (rollbackCount steps (length (ledger (committed (db r)))))
                   (rollbackOrder drv (committed (db r)))) \<and>
            filter isDelete (newCalls r r') =
              map (\<lambda>row. SqlDelete (ID row))
                (take (rollbackCount steps (length (ledger (committed (db r)))))
                   (rollbackOrder drv (committed (db r)))) \<and>
            ledger (committed (db r')) =
              filter (\<lambda>x. ID x \<notin> ID ` set (take (rollbackCount steps (length (ledger (committed (db r)))))
                                                (rollbackOrder drv (committed (db r)))))
                (ledger (committed (db r))))"
proof -
  let ?st = "committed (db r)"
  let ?rows = "take (rollbackCount steps (length (ledger ?st))) (rollbackOrder drv ?st)"
  let ?plan = "rollbackCalls (buildMigrationMap (migrations r)) ?rows"
  note stmts = Down_statements [OF assms]
  have deletes: "filter isDelete (newCalls r r') = map (\<lambda>row. SqlDelete (ID row)) ?rows"
    if "res = None"
  proof -
    from that stmts have "filter isStatement (newCalls r r') = ?plan"
      by simp
    then have "filter isDelete (filter isStatement (newCalls r r')) = filter isDelete ?plan"
      by simp
    then show ?thesis
      by (simp only: filter_deletes_statements deletes_rollbackCalls)
  qed
  show ?thesis
  proof (intro conjI impI)
    show "mset (rollbackOrder drv ?st) = mset (ledger ?st)"
      by (rule mset_rollbackOrder)
    show "sorted_wrt (\<lambda>a b. Batch a > Batch b \<or> (Batch a = Batch b \<and> ID a \<ge> ID b))
        (rollbackOrder drv ?st)"
      by (rule sorted_rollbackOrder)
    show "rollbackCount steps (length (ledger ?st)) =
        (if steps \<le> 0 \<or> steps > int (length (ledger ?st)) then length (ledger ?st)
         else nat steps)"
      by (simp add: rollbackCount_def)
    show "prefix (filter isStatement (newCalls r r')) ?plan"
      using stmts by (rule conjunct1)
  next
    assume ok: "res = None"
    with stmts show "filter isStatement (newCalls r r') = ?plan"
      by simp
    from ok show "filter isDelete (newCalls r r') = map (\<lambda>row. SqlDelete (ID row)) ?rows"
      by (rule deletes)
    from ok stmts show "ledger (committed (db r')) =
        filter (\<lambda>x. ID x \<notin> ID ` set ?rows) (ledger ?st)"
      by simp
  qed
qed

lemma demo_Down_all:
  "Down demoDriver 0 \<lparr>db = gapDB, migrations = [migA, migC]\<rparr> =
     (None,
      \<lparr>db = \<lparr>committed =
               \<lparr>ledger = [],
                schema = [''CREATE TABLE t(id INT)'', ''ALTER TABLE t ADD COLUMN c TEXT'',
                          ''ALTER TABLE t DROP COLUMN c'', ''DROP TABLE t'']\<rparr>,
             tx = None,
             calls = [SqlCreateTable, SqlCreateIndex, SqlSelect, SqlBegin,
                      SqlExec ''ALTER TABLE t DROP COLUMN c'', SqlDelete ''c'',
                      SqlExec ''DROP TABLE t'', SqlDelete ''a'', SqlCommit]\<rparr>,
        migrations = [migA, migC]\<rparr>)"
  by (simp add: engine_eval ws_eval demoDriver_def gapDB_def migA_def migC_def)

lemma demo_Down_one:
  "Down demoDriver 1 \<lparr>db = gapDB, migrations = [migA, migC]\<rparr> =
     (None,
      \<lparr>db = \<lparr>committed =
               \<lparr>ledger = [\<lparr>ID = ''a'', Description = ''A'', AppliedAt = 5, Batch = 1\<rparr>],
                schema = [''CREATE TABLE t(id INT)'', ''ALTER TABLE t ADD COLUMN c TEXT'',
                          ''ALTER TABLE t DROP COLUMN c'']\<rparr>,
             tx = None,
             calls = [SqlCreateTable, SqlCreateIndex, SqlSelect, SqlBegin,
                      SqlExec ''ALTER TABLE t DROP COLUMN c'', SqlDelete ''c'', SqlCommit]\<rparr>,
        migrations = [migA, migC]\<rparr>)"
  by (simp add: engine_eval ws_eval demoDriver_def gapDB_def migA_def migC_def)

theorem Down_rollback_selection_witness:
  "Down demoDriver 1 \<lparr>db = gapDB, migrations = [migA, migC]\<rparr> =
     (None,
      \<lparr>db = \<lparr>committed =
               \<lparr>ledger = [\<lparr>ID = ''a'', Description = ''A'', AppliedAt = 5, Batch = 1\<rparr>],
                schema = [''CREATE TABLE t(id INT)'', ''ALTER TABLE t ADD COLUMN c TEXT'',
                          ''ALTER TABLE t DROP COLUMN c'']\<rparr>,
             tx = None,
             calls = [SqlCreateTable, SqlCreateIndex, SqlSelect, SqlBegin,
                      SqlExec ''ALTER TABLE t DROP COLUMN c'', SqlDelete ''c'', SqlCommit]\<rparr>,
        migrations = [migA, migC]\<rparr>) \<and>
   ledger (committed gapDB) \<noteq> [] \<and>
   rollbackOrder demoDriver (committed gapDB) =
     [\<lparr>ID = ''c'', Description = ''C'', AppliedAt = 6, Batch = 3\<rparr>,
      \<lparr>ID = ''a'', Description = ''A'', AppliedAt = 5, Batch = 1\<rparr>] \<and>
   rollbackCount 1 (length (ledger (committed gapDB))) = 1 \<and>
   map (\<lambda>row. SqlDelete (ID row)) (take 1 (rollbackOrder demoDriver (committed gapDB))) = [SqlDelete ''c'']"
proof -
  let ?r = "\<lparr>db = gapDB, migrations = [migA, migC]\<rparr>"
  let ?r1 = "\<lparr>db = \<lparr>committed =
               \<lparr>ledger = [\<lparr>ID = ''a'', Description = ''A'', AppliedAt = 5, Batch = 1\<rparr>],
                schema = [''CREATE TABLE t(id INT)'', ''ALTER TABLE t ADD COLUMN c TEXT'',
                          ''ALTER TABLE t DROP COLUMN c'']\<rparr>,
             tx = None,
             calls = [SqlCreateTable, SqlCreateIndex, SqlSelect, SqlBegin,
                      SqlExec ''ALTER TABLE t DROP COLUMN c'', SqlDelete ''c'', SqlCommit]\<rparr>,
        migrations = [migA, migC]\<rparr>"
  have rows: "ledger (committed gapDB) =
      [\<lparr>ID = ''a'', Description = ''A'', AppliedAt = 5, Batch = 1\<rparr>,
       \<lparr>ID = ''c'', Description = ''C'', AppliedAt = 6, Batch = 3\<rparr>]"
    by (simp add: gapDB_def)
  then have nonempty: "ledger (committed (db ?r)) \<noteq> []"
    by simp
  have order: "rollbackOrder demoDriver (committed gapDB) =
     [\<lparr>ID = ''c'', Description = ''C'', AppliedAt = 6, Batch = 3\<rparr>,
      \<lparr>ID = ''a'', Description = ''A'', AppliedAt = 5, Batch = 1\<rparr>]"
    by (simp add: rollbackOrder_def selectLedger_def sortSlice_def arrange_def insertionSort_def
        demoDriver_def rows)
  have made: "filter isDelete (newCalls ?r ?r1) = [SqlDelete ''c'']"
    by (simp add: newCalls_def gapDB_def)
  note selection = Down_rollback_selection [OF demo_Down_one nonempty]
  have same: "committed (db ?r) = committed gapDB"
    by simp
  from selection [THEN conjunct2, THEN conjunct2, THEN conjunct1]
  have count: "rollbackCount 1 (length (ledger (committed gapDB))) = 1"
    unfolding same by (simp add: rows)
  from selection [THEN conjunct2, THEN conjunct2, THEN conjunct2, THEN conjunct2]
  have "filter isDelete (newCalls ?r ?r1) =
      map (\<lambda>row. SqlDelete (ID row))
        (take (rollbackCount 1 (length (ledger (committed gapDB)))) (rollbackOrder demoDriver (committed gapDB)))"
    unfolding same by blast
  then have deletes: "map (\<lambda>row. SqlDelete (ID row)) (take 1 (rollbackOrder demoDriver (committed gapDB))) =
      [SqlDelete ''c'']"
    unfolding count made by (rule sym)
  have nonempty': "ledger (committed gapDB) \<noteq> []"
    by (simp add: rows)
  show ?thesis
    by (intro conjI) (rule demo_Down_one, rule nonempty', rule order, rule count, rule deletes)
qed

text \<open>
  C6. On an empty Ledger \<open>Down\<close> fails for every \<open>steps\<close>, begins no transaction and
  leaves the store as it is; whenever the Ledger can be read, the error is
  \<open>ErrNoMigrationsToRollback\<close> itself and the only calls are the bootstrap and the query.
\<close>

theorem Down_empty_ledger:
  assumes "ledger (committed (db r)) = []"
  shows "fst (Down drv steps r) \<noteq> None \<and>
         SqlBegin \<notin> set (newCalls r (snd (Down drv steps r))) \<and>
         committed (db (snd (Down drv steps r))) = committed (db r) \<and>
         tx (db (snd (Down drv steps r))) = tx (db r) \<and>
         (readable drv (committed (db r)) \<longrightarrow>
            Down drv steps r =
              (Some ErrNoMigrationsToRollback,
               r\<lparr>db := (db r)\<lparr>calls := calls (db r) @
                                  [SqlCreateTable, SqlCreateIndex, SqlSelect]\<rparr>\<rparr>))"
proof -
  obtain res r' where run: "Down drv steps r = (res, r')"
    by (cases "Down drv steps r")
  from run show ?thesis
  proof (cases rule: Down_cases)
    case (readFails err xs)
    from readFails(4) have "set xs \<subseteq> {SqlCreateTable, SqlCreateIndex, SqlSelect}"
      using set_mono_prefix by fastforce
    then have "SqlBegin \<notin> set xs"
      by auto
    with readFails run show ?thesis
      by (simp add: newCalls_def)
  next
    case nothing
    with run show ?thesis
      by (simp add: newCalls_def afterRead_def)
  next
    case (rollback d2)
    with assms show ?thesis by simp
  qed
qed

theorem Down_empty_ledger_witness:
  "ledger (committed (db (New emptyDB))) = [] \<and>
   Down demoDriver 3 (New emptyDB) =
     (Some ErrNoMigrationsToRollback,
      \<lparr>db = \<lparr>committed = \<lparr>ledger = [], schema = []\<rparr>, tx = None,
             calls = [SqlCreateTable, SqlCreateIndex, SqlSelect]\<rparr>,
       migrations = []\<rparr>)"
proof -
  have empty: "ledger (committed (db (New emptyDB))) = []"
    by (simp add: New_def emptyDB_def)
  have canRead: "readable demoDriver (committed (db (New emptyDB)))"
    by (simp add: readable_def demoDriver_def)
  from Down_empty_ledger [OF empty, of demoDriver 3] canRead
  have "Down demoDriver 3 (New emptyDB) =
      (Some ErrNoMigrationsToRollback,
       (New emptyDB)\<lparr>db := (db (New emptyDB))\<lparr>calls := calls (db (New emptyDB)) @
                                  [SqlCreateTable, SqlCreateIndex, SqlSelect]\<rparr>\<rparr>)"
    by blast
  with empty show ?thesis
    by (simp add: New_def emptyDB_def)
qed

section \<open>Rows without a registered migration\<close>







text \<open>A handle with a transaction open on the Ledger of \<open>gapDB\<close>.\<close>

definition openTx :: "string list sqlDB" where
  "openTx = gapDB\<lparr>tx := Some (committed gapDB), calls := [SqlBegin]\<rparr>"


section \<open>Statement filtering\<close>

lemma forwardStatements_whitespaceOnly:
  "forwardStatements m = filter (\<lambda>query. \<not> whitespaceOnly query) (Migration_Up m)"
  by (simp add: forwardStatements_def TrimSpace_Nil_iff)

lemma reverseStatements_whitespaceOnly:
  "reverseStatements m =
     filter (\<lambda>query. \<not> (whitespaceOnly query \<or> prefix ''--'' (TrimSpace query)))
       (Migration_Down m)"
  by (simp add: reverseStatements_def TrimSpace_Nil_iff HasPrefix_def)

lemma txRun_calls:
  assumes "txRun drv plan d (res, d')"
  shows "take (length (calls d)) (calls d') = calls d \<and>
         prefix (drop (length (calls d)) (calls d')) plan \<and>
         (res = None \<longrightarrow>
            drop (length (calls d)) (calls d') = plan \<and>
            rel_option (\<lambda>w w'. runCalls drv plan w = Inr w') (tx d) (tx d'))"
proof -
  from assms obtain xs where "calls d' = calls d @ xs" "prefix xs plan"
    "res = None \<longrightarrow> xs = plan \<and> rel_option (\<lambda>w w'. runCalls drv plan w = Inr w') (tx d) (tx d')"
    by (auto simp: txRun_def)
  then show ?thesis
    by simp
qed

text \<open>
  C8. Statement filtering is asymmetric. Applying a migration executes, in order, the
  forward entries that are not empty or whitespace-only, then the Ledger insert;
  rolling back a row with a registered migration executes, in order, the reverse
  entries that are neither empty or whitespace-only nor, once trimmed, begin with
  \<open>--\<close>, then the Ledger delete. Nothing is sent for a skipped entry, and the working
  state of the transaction after a run without error is the one these statements alone
  yield. A run that fails has executed a prefix of them.
\<close>

theorem statement_filtering:
  "(executeMigrationUp drv m batch d = (res, d') \<longrightarrow>
      take (length (calls d)) (calls d') = calls d \<and>
      prefix (drop (length (calls d)) (calls d'))
        (map SqlExec (filter (\<lambda>query. \<not> whitespaceOnly query) (Migration_Up m)) @
         [SqlInsert (Migration_ID m) (Migration_Description m) batch]) \<and>
      (res = None \<longrightarrow>
         drop (length (calls d)) (calls d') =
           map SqlExec (filter (\<lambda>query. \<not> whitespaceOnly query) (Migration_Up m)) @
           [SqlInsert (Migration_ID m) (Migration_Description m) batch] \<and>
         rel_option
           (\<lambda>w w'. runCalls drv
                      (map SqlExec (filter (\<lambda>query. \<not> whitespaceOnly query) (Migration_Up m)) @
                       [SqlInsert (Migration_ID m) (Migration_Description m) batch]) w = Inr w')
           (tx d) (tx d'))) \<and>
   (migrationMap (ID row) = Some m \<and>
    rollbackSingleMigration drv row migrationMap d = (res, d') \<longrightarrow>
      take (length (calls d)) (calls d') = calls d \<and>
      prefix (drop (length (calls d)) (calls d'))
        (map SqlExec
           (filter (\<lambda>query. \<not> (whitespaceOnly query \<or> prefix ''--'' (TrimSpace query)))
              (Migration_Down m)) @
         [SqlDelete (ID row)]) \<and>
      (res = None \<longrightarrow>
         drop (length (calls d)) (calls d') =
           map SqlExec
             (filter (\<lambda>query. \<not> (whitespaceOnly query \<or> prefix ''--'' (TrimSpace query)))
                (Migration_Down m)) @
           [SqlDelete (ID row)] \<and>
         rel_option
           (\<lambda>w w'. runCalls drv
                      (map SqlExec
                         (filter (\<lambda>query. \<not> (whitespaceOnly query \<or> prefix ''--'' (TrimSpace query)))
                            (Migration_Down m)) @
                       [SqlDelete (ID row)]) w = Inr w')
           (tx d) (tx d')))"
proof (rule conjI; rule impI)
  assume run: "executeMigrationUp drv m batch d = (res, d')"
  have "txRun drv (upCalls batch m) d (res, d')"
    using txRun_executeMigrationUp [of drv batch m d] run by simp
  then have "txRun drv
      (map SqlExec (filter (\<lambda>query. \<not> whitespaceOnly query) (Migration_Up m)) @
       [SqlInsert (Migration_ID m) (Migration_Description m) batch]) d (res, d')"
    by (simp add: upCalls_def forwardStatements_whitespaceOnly)
  then show "take (length (calls d)) (calls d') = calls d \<and>
      prefix (drop (length (calls d)) (calls d'))
        (map SqlExec (filter (\<lambda>query. \<not> whitespaceOnly query) (Migration_Up m)) @
         [SqlInsert (Migration_ID m) (Migration_Description m) batch]) \<and>
      (res = None \<longrightarrow>
         drop (length (calls d)) (calls d') =
           map SqlExec (filter (\<lambda>query. \<not> whitespaceOnly query) (Migration_Up m)) @
           [SqlInsert (Migration_ID m) (Migration_Description m) batch] \<and>
         rel_option
           (\<lambda>w w'. runCalls drv
                      (map SqlExec (filter (\<lambda>query. \<not> whitespaceOnly query) (Migration_Up m)) @
                       [SqlInsert (Migration_ID m) (Migration_Description m) batch]) w = Inr w')
           (tx d) (tx d'))"
    by (rule txRun_calls)
next
  assume "migrationMap (ID row) = Some m \<and>
    rollbackSingleMigration drv row migrationMap d = (res, d')"
  then have reg: "migrationMap (ID row) = Some m"
    and run: "rollbackSingleMigration drv row migrationMap d = (res, d')"
    by simp_all
  have "txRun drv (downCalls migrationMap row) d (res, d')"
    using txRun_rollbackSingleMigration [of drv migrationMap row d] run by simp
  then have "txRun drv
      (map SqlExec
         (filter (\<lambda>query. \<not> (whitespaceOnly query \<or> prefix ''--'' (TrimSpace query)))
            (Migration_Down m)) @
       [SqlDelete (ID row)]) d (res, d')"
    by (simp add: downCalls_def reg reverseStatements_whitespaceOnly)
  then show "take (length (calls d)) (calls d') = calls d \<and>
      prefix (drop (length (calls d)) (calls d'))
        (map SqlExec
           (filter (\<lambda>query. \<not> (whitespaceOnly query \<or> prefix ''--'' (TrimSpace query)))
              (Migration_Down m)) @
         [SqlDelete (ID row)]) \<and>
      (res = None \<longrightarrow>
         drop (length (calls d)) (calls d') =
           map SqlExec
             (filter (\<lambda>query. \<not> (whitespaceOnly query \<or> prefix ''--'' (TrimSpace query)))
                (Migration_Down m)) @
           [SqlDelete (ID row)] \<and>
         rel_option
           (\<lambda>w w'. runCalls drv
                      (map SqlExec
                         (filter (\<lambda>query. \<not> (whitespaceOnly query \<or> prefix ''--'' (TrimSpace query)))
                            (Migration_Down m)) @
                       [SqlDelete (ID row)]) w = Inr w')
           (tx d) (tx d'))"
    by (rule txRun_calls)
qed

text \<open>
  A migration whose forward and reverse sequences each hold a whitespace-only entry, a
  comment, and a statement.
\<close>

definition migW :: Migration where
  "migW = \<lparr>id' = ''w'', description = ''W'',
            upQueries = [''  '', ''-- widgets'', ''CREATE TABLE w(id INT)''],
            downQueries = [''DROP TABLE w'', ''  -- nothing else'', [], ''   '']\<rparr>"

theorem statement_filtering_witness:
  "executeMigrationUp demoDriver migW 4 openTx =
     (None,
      openTx\<lparr>tx := Some
                \<lparr>ledger = [\<lparr>ID = ''a'', Description = ''A'', AppliedAt = 5, Batch = 1\<rparr>,
                           \<lparr>ID = ''c'', Description = ''C'', AppliedAt = 6, Batch = 3\<rparr>,
                           \<lparr>ID = ''w'', Description = ''W'', AppliedAt = 7, Batch = 4\<rparr>],
                 schema = [''CREATE TABLE t(id INT)'', ''ALTER TABLE t ADD COLUMN c TEXT'',
                           ''-- widgets'', ''CREATE TABLE w(id INT)'']\<rparr>,
             calls := [SqlBegin, SqlExec ''-- widgets'', SqlExec ''CREATE TABLE w(id INT)'',
                       SqlInsert ''w'' ''W'' 4]\<rparr>) \<and>
   map SqlExec (filter (\<lambda>query. \<not> whitespaceOnly query) (Migration_Up migW)) @
     [SqlInsert ''w'' ''W'' 4] =
     [SqlExec ''-- widgets'', SqlExec ''CREATE TABLE w(id INT)'', SqlInsert ''w'' ''W'' 4] \<and>
   rollbackSingleMigration demoDriver
      \<lparr>ID = ''c'', Description = ''C'', AppliedAt = 6, Batch = 3\<rparr> [''c'' \<mapsto> migW] openTx =
     (None,
      openTx\<lparr>tx := Some
                \<lparr>ledger = [\<lparr>ID = ''a'', Description = ''A'', AppliedAt = 5, Batch = 1\<rparr>],
                 schema = [''CREATE TABLE t(id INT)'', ''ALTER TABLE t ADD COLUMN c TEXT'',
                           ''DROP TABLE w'']\<rparr>,
             calls := [SqlBegin, SqlExec ''DROP TABLE w'', SqlDelete ''c'']\<rparr>) \<and>
   map SqlExec
     (filter (\<lambda>query. \<not> (whitespaceOnly query \<or> prefix ''--'' (TrimSpace query)))
        (Migration_Down migW)) @ [SqlDelete ''c''] =
     [SqlExec ''DROP TABLE w'', SqlDelete ''c'']"
proof -
  let ?row = "\<lparr>ID = ''c'', Description = ''C'', AppliedAt = 6, Batch = 3\<rparr>"
  let ?map = "[''c'' \<mapsto> migW]"
  let ?up = "openTx\<lparr>tx := Some
                \<lparr>ledger = [\<lparr>ID = ''a'', Description = ''A'', AppliedAt = 5, Batch = 1\<rparr>,
                           \<lparr>ID = ''c'', Description = ''C'', AppliedAt = 6, Batch = 3\<rparr>,
                           \<lparr>ID = ''w'', Description = ''W'', AppliedAt = 7, Batch = 4\<rparr>],
                 schema = [''CREATE TABLE t(id INT)'', ''ALTER TABLE t ADD COLUMN c TEXT'',
                           ''-- widgets'', ''CREATE TABLE w(id INT)'']\<rparr>,
             calls := [SqlBegin, SqlExec ''-- widgets'', SqlExec ''CREATE TABLE w(id INT)'',
                       SqlInsert ''w'' ''W'' 4]\<rparr>"
  let ?down = "openTx\<lparr>tx := Some
                \<lparr>ledger = [\<lparr>ID = ''a'', Description = ''A'', AppliedAt = 5, Batch = 1\<rparr>],
                 schema = [''CREATE TABLE t(id INT)'', ''ALTER TABLE t ADD COLUMN c TEXT'',
                           ''DROP TABLE w'']\<rparr>,
             calls := [SqlBegin, SqlExec ''DROP TABLE w'', SqlDelete ''c'']\<rparr>"
  have up: "executeMigrationUp demoDriver migW 4 openTx = (None, ?up)"
    by (simp add: engine_eval ws_eval demoDriver_def openTx_def gapDB_def migW_def)
  have down: "rollbackSingleMigration demoDriver ?row ?map openTx = (None, ?down)"
    by (simp add: engine_eval ws_eval demoDriver_def openTx_def gapDB_def migW_def)
  have registered: "?map (ID ?row) = Some migW \<and>
      rollbackSingleMigration demoDriver ?row ?map openTx = (None, ?down)"
    using down by simp
  from statement_filtering [of demoDriver migW 4 openTx None ?up, THEN conjunct1, rule_format, OF up]
  have "drop (length (calls openTx)) (calls ?up) =
      map SqlExec (filter (\<lambda>query. \<not> whitespaceOnly query) (Migration_Up migW)) @
      [SqlInsert (Migration_ID migW) (Migration_Description migW) 4]"
    by blast
  then have forward: "map SqlExec (filter (\<lambda>query. \<not> whitespaceOnly query) (Migration_Up migW)) @
      [SqlInsert ''w'' ''W'' 4] =
      [SqlExec ''-- widgets'', SqlExec ''CREATE TABLE w(id INT)'', SqlInsert ''w'' ''W'' 4]"
    by (simp add: openTx_def migW_def)
  from statement_filtering [of demoDriver migW 4 openTx None ?down ?map ?row,
      THEN conjunct2, rule_format, OF registered]
  have "drop (length (calls openTx)) (calls ?down) =
      map SqlExec
        (filter (\<lambda>query. \<not> (whitespaceOnly query \<or> prefix ''--'' (TrimSpace query)))
           (Migration_Down migW)) @ [SqlDelete (ID ?row)]"
    by blast
  then have reverse: "map SqlExec
      (filter (\<lambda>query. \<not> (whitespaceOnly query \<or> prefix ''--'' (TrimSpace query)))
         (Migration_Down migW)) @ [SqlDelete ''c''] =
      [SqlExec ''DROP TABLE w'', SqlDelete ''c'']"
    by (simp add: openTx_def)
  show ?thesis
    by (intro conjI) (rule up, rule forward, rule down, rule reverse)
qed

end
